theory Spec2Isabelle
  imports Main
begin

section \<open>Strings and regular expressions of the bot\<close>

text \<open>
  The file \<^verbatim>\<open>bot.js\<close> holds two revisions of the bot, one after the other. The model
  follows the first, the one with message threads and a tracked token expiry; the second
  differs in the setup and in deleting the vote message instead of editing it.

  JavaScript strings are modelled as \<open>string\<close>. The patterns of \<^verbatim>\<open>bot.js\<close> are ASCII
  and \<^verbatim>\<open>\w\<close> (without the unicode flag) is \<^verbatim>\<open>[A-Za-z0-9_]\<close>, so a character outside
  ASCII, however it is encoded, is never part of a match. The German texts and the
  symbols of the replies are written as their UTF-8 bytes.

  A value that may be absent (\<^verbatim>\<open>ctx.message.text\<close> of a photo, say) is a \<open>jsval\<close>.
\<close>

datatype jsval = Undefined | Null | Str string

text \<open>The class \<^verbatim>\<open>\w\<close>, by character code.\<close>

definition word_char :: "char \<Rightarrow> bool" where
  "word_char c =
     (let n = (of_char c :: nat)
      in (48 \<le> n \<and> n \<le> 57) \<or> (65 \<le> n \<and> n \<le> 90) \<or> n = 95 \<or> (97 \<le> n \<and> n \<le> 122))"

text \<open>A literal of a pattern, matched at the start of the input: the rest of the input.\<close>

fun strip_prefix :: "string \<Rightarrow> string \<Rightarrow> string option" where
  "strip_prefix [] s = Some s"
| "strip_prefix (p # ps) [] = None"
| "strip_prefix (p # ps) (c # cs) = (if p = c then strip_prefix ps cs else None)"

text \<open>The group \<^verbatim>\<open>(\w+)\<close> at the end of a pattern: greedy, at least one character.\<close>

definition word_group :: "string \<Rightarrow> string option" where
  "word_group s = (let g = takeWhile word_char s in if g = [] then None else Some g)"

text \<open>
  \<^verbatim>\<open>/https?:\/\/open\.spotify\.com\/track\/(\w+)/\<close> tried at the start of the input.
  The optional \<^verbatim>\<open>s\<close> is greedy: the matcher first takes it and, when the rest of the
  pattern fails after it, tries again without it.
\<close>

definition track_tail :: "string \<Rightarrow> string option" where
  "track_tail s =
     (case strip_prefix ''://open.spotify.com/track/'' s of
        None \<Rightarrow> None
      | Some r \<Rightarrow> word_group r)"

definition track_regex_at :: "string \<Rightarrow> string option" where
  "track_regex_at s =
     (case strip_prefix ''http'' s of
        None \<Rightarrow> None
      | Some r \<Rightarrow>
          (case (case strip_prefix ''s'' r of None \<Rightarrow> None | Some r' \<Rightarrow> track_tail r') of
             Some g \<Rightarrow> Some g
           | None \<Rightarrow> track_tail r))"

text \<open>
  \<^verbatim>\<open>String.prototype.match\<close> with a pattern that is not anchored and not global: the
  match at the leftmost position where the pattern matches, positions up to the end of
  the input included.
\<close>

fun regex_search :: "(string \<Rightarrow> 'a option) \<Rightarrow> string \<Rightarrow> 'a option" where
  "regex_search m [] = m []"
| "regex_search m (c # cs) =
     (case m (c # cs) of Some g \<Rightarrow> Some g | None \<Rightarrow> regex_search m cs)"

text \<open>
  \<^verbatim>\<open>spotifyUrlToUri(url)\<close>; \<open>None\<close> is \<^verbatim>\<open>undefined\<close>. The guard \<^verbatim>\<open>!url\<close> is true of
  undefined, of null and of the empty string.
\<close>

fun spotifyUrlToUri :: "jsval \<Rightarrow> string option" where
  "spotifyUrlToUri Undefined = None"
| "spotifyUrlToUri Null = None"
| "spotifyUrlToUri (Str url) =
     (if url = [] then None
      else (case regex_search track_regex_at url of
              Some g \<Rightarrow> Some (''spotify:track:'' @ g)
            | None \<Rightarrow> None))"

text \<open>\<^verbatim>\<open>/spotify:track:(\w+)/\<close> of \<^verbatim>\<open>resolveTrack\<close>, at the start of the input.\<close>

definition uri_regex_at :: "string \<Rightarrow> string option" where
  "uri_regex_at s =
     (case strip_prefix ''spotify:track:'' s of
        None \<Rightarrow> None
      | Some r \<Rightarrow> word_group r)"

text \<open>
  \<^verbatim>\<open>/^accept:(spotify:track:\w+)/\<close>, the trigger of the approve action, applied to the
  callback data: the captured group \<^verbatim>\<open>ctx.match[1]\<close>.
\<close>

definition accept_regex :: "string \<Rightarrow> string option" where
  "accept_regex d =
     (case strip_prefix ''accept:'' d of
        None \<Rightarrow> None
      | Some r \<Rightarrow>
          (case uri_regex_at r of
             None \<Rightarrow> None
           | Some g \<Rightarrow> Some (''spotify:track:'' @ g)))"

section \<open>Settings, values and effects\<close>

text \<open>The settings at the head of \<^verbatim>\<open>bot.js\<close>.\<close>

definition votingGroup :: string where
  "votingGroup = ''-1002454626909''"

definition votingGroupThread :: string where
  "votingGroupThread = ''637''"

definition admins :: "string list" where
  "admins = [''117441870'']"

definition deleteMessageAfterAcceptDecline :: bool where
  "deleteMessageAfterAcceptDecline = False"

text \<open>
  \<^verbatim>\<open>String(id)\<close> of a chat or user identifier, an integer that JavaScript prints in
  decimal.
\<close>

definition digit_char :: "nat \<Rightarrow> char" where
  "digit_char d =
     (if d = 0 then CHR ''0'' else if d = 1 then CHR ''1'' else if d = 2 then CHR ''2''
      else if d = 3 then CHR ''3'' else if d = 4 then CHR ''4'' else if d = 5 then CHR ''5''
      else if d = 6 then CHR ''6'' else if d = 7 then CHR ''7'' else if d = 8 then CHR ''8''
      else CHR ''9'')"

fun digits :: "nat \<Rightarrow> string" where
  "digits n =
     (if n < 10 then [digit_char n]
      else digits (n div 10) @ [digit_char (n mod 10)])"

declare digits.simps [simp del]

definition String_of :: "int \<Rightarrow> string" where
  "String_of i = (if i < 0 then CHR ''-'' # digits (nat (- i)) else digits (nat i))"

definition isAdmin :: "int \<Rightarrow> bool" where
  "isAdmin i = (String_of i \<in> set admins)"

definition isVotingGroup :: "int \<Rightarrow> bool" where
  "isVotingGroup i = (String_of i = votingGroup)"

text \<open>A Telegram user: \<^verbatim>\<open>id\<close>, \<^verbatim>\<open>first_name\<close> and the optional \<^verbatim>\<open>username\<close>.\<close>

record user =
  uid :: int
  first_name :: string
  username :: "string option"

text \<open>\<^verbatim>\<open>formatUser\<close>: the handle is shown when it is present and not empty.\<close>

definition formatUser :: "user \<Rightarrow> string" where
  "formatUser u =
     (case username u of
        None \<Rightarrow> first_name u
      | Some h \<Rightarrow> if h = [] then first_name u else first_name u @ '' (@'' @ h @ '')'')"

text \<open>
  The body of a track as \<^verbatim>\<open>getTrack\<close> answers it: the name, the artists' names and
  \<^verbatim>\<open>external_urls.spotify\<close>.
\<close>

record track =
  track_name :: string
  track_artists :: "string list"
  track_url :: string

record track_info =
  info_name :: string
  info_artists :: string

fun join :: "string \<Rightarrow> string list \<Rightarrow> string" where
  "join sep [] = []"
| "join sep [x] = x"
| "join sep (x # y # ys) = x @ sep @ join sep (y # ys)"

definition formatTrackInfo :: "track \<Rightarrow> track_info" where
  "formatTrackInfo t =
     \<lparr>info_name = track_name t, info_artists = join '', '' (track_artists t)\<rparr>"

text \<open>Characters outside ASCII in the texts of the bot, as UTF-8 bytes.\<close>

definition uuml :: string where "uuml = [CHR 0xC3, CHR 0xBC]"
definition ouml :: string where "ouml = [CHR 0xC3, CHR 0xB6]"
definition bullet :: string where "bullet = [CHR 0xE2, CHR 0x80, CHR 0xA2]"
definition check_mark :: string where "check_mark = [CHR 0xE2, CHR 0x9C, CHR 0x85]"
definition cross_mark :: string where "cross_mark = [CHR 0xE2, CHR 0x9D, CHR 0x8C]"

text \<open>
  What a handler does to the outside: calls of the messaging transport, of the music
  service (with the access token the API object holds at the time of the call) and of
  the key-value store.
\<close>

datatype button = CallbackButton string string | UrlButton string string

datatype effect =
    Reply string
  | SendMessage string string "button list list" "string option"
  | EditMessageText string
  | EditMessageReplyMarkup
  | DeleteMessage
  | RefreshAccessToken "string option"
  | GetTrack string "string option"
  | AddToQueue string "string option"
  | AuthorizationCodeGrant "string option"
  | StorageSetItem string string

fun is_AddToQueue :: "effect \<Rightarrow> bool" where
  "is_AddToQueue (AddToQueue u t) = True"
| "is_AddToQueue e = False"

fun is_GetTrack :: "effect \<Rightarrow> bool" where
  "is_GetTrack (GetTrack i t) = True"
| "is_GetTrack e = False"

fun is_Reply :: "effect \<Rightarrow> bool" where
  "is_Reply (Reply t) = True"
| "is_Reply e = False"

fun is_SendMessage :: "effect \<Rightarrow> bool" where
  "is_SendMessage (SendMessage c t k h) = True"
| "is_SendMessage e = False"

fun is_RefreshAccessToken :: "effect \<Rightarrow> bool" where
  "is_RefreshAccessToken (RefreshAccessToken r) = True"
| "is_RefreshAccessToken e = False"

fun is_EditMessageText :: "effect \<Rightarrow> bool" where
  "is_EditMessageText (EditMessageText t) = True"
| "is_EditMessageText e = False"

fun is_StorageSetItem :: "effect \<Rightarrow> bool" where
  "is_StorageSetItem (StorageSetItem k v) = True"
| "is_StorageSetItem e = False"

text \<open>
  The answer of an external call, given to the model as an input: the promise is
  fulfilled with a value or rejected with an error.
\<close>

datatype 'a promise = Fulfilled 'a | Rejected string

text \<open>
  How a handler ends: it completes, the promise it returns is rejected (an exception
  passes an \<^verbatim>\<open>await\<close> inside an \<^verbatim>\<open>async\<close> handler), or a promise chain it started and
  did not return is rejected with nobody listening.
\<close>

datatype outcome = Completed | HandlerRejected string | UnhandledRejection string

section \<open>The token state\<close>

text \<open>
  The credentials inside the \<^verbatim>\<open>spotifyApi\<close> object, the globals
  \<^verbatim>\<open>spotifyRefreshToken\<close>, \<^verbatim>\<open>spotifyAccessToken\<close> and \<^verbatim>\<open>spotifyTokenExpires\<close>
  (milliseconds), the key-value store, and the per-user windows of the rate limiter of
  the message route.
\<close>

record bot_state =
  api_accessToken :: "string option"
  api_refreshToken :: "string option"
  spotifyRefreshToken :: "string option"
  spotifyAccessToken :: "string option"
  spotifyTokenExpires :: int
  storage :: "string \<rightharpoonup> string"
  hits :: "int \<Rightarrow> int list"

text \<open>The bodies of the OAuth answers, with the fields the code reads.\<close>

record refresh_body =
  refreshed_access_token :: string
  refreshed_expires_in :: nat

record grant_body =
  access_token :: string
  refresh_token :: string
  expires_in :: nat

text \<open>
  \<^verbatim>\<open>refreshSpotifyToken(refreshToken, accessToken, force)\<close> at time \<open>now\<close>: when the token
  has expired it writes both arguments into the API object and starts the refresh call.
  It does not wait for the answer.
\<close>

definition refreshSpotifyToken ::
  "int \<Rightarrow> string option \<Rightarrow> string option \<Rightarrow> bool \<Rightarrow> bot_state \<Rightarrow> bot_state \<times> effect list" where
  "refreshSpotifyToken now refreshToken accessToken force st =
     (if spotifyTokenExpires st \<le> now \<or> force
      then (st\<lparr>api_refreshToken := refreshToken, api_accessToken := accessToken\<rparr>,
            [RefreshAccessToken refreshToken])
      else (st, []))"

text \<open>The two callbacks of the refresh call, run when its answer arrives at time \<open>now\<close>.\<close>

definition refresh_fulfilled :: "int \<Rightarrow> refresh_body \<Rightarrow> bot_state \<Rightarrow> bot_state" where
  "refresh_fulfilled now d st =
     st\<lparr>api_accessToken := Some (refreshed_access_token d),
        spotifyTokenExpires := now + int (refreshed_expires_in d) * 1000\<rparr>"

definition refresh_rejected :: "bot_state \<Rightarrow> bot_state" where
  "refresh_rejected st = st"

text \<open>
  \<^verbatim>\<open>getSpotify(refresh)\<close>; the API object is defined once the setup has run. The object
  it returns is the one in the resulting state.
\<close>

definition getSpotify :: "int \<Rightarrow> bool \<Rightarrow> bot_state \<Rightarrow> bot_state \<times> effect list" where
  "getSpotify now refresh st =
     (if refresh
      then refreshSpotifyToken now (spotifyRefreshToken st) (spotifyAccessToken st) False st
      else (st, []))"

text \<open>
  The setup: the globals are read from the store, \<^verbatim>\<open>spotifyTokenExpires\<close> is the time
  \<open>t0\<close> of loading the module, and a stored pair of tokens is refreshed at time \<open>t1\<close>.
\<close>

definition startup :: "int \<Rightarrow> int \<Rightarrow> (string \<rightharpoonup> string) \<Rightarrow> bot_state \<times> effect list" where
  "startup t0 t1 stor =
     (let st = \<lparr>api_accessToken = None, api_refreshToken = None,
                spotifyRefreshToken = stor ''spotify_refresh_token'',
                spotifyAccessToken = stor ''spotify_access_token'',
                spotifyTokenExpires = t0, storage = stor, hits = (\<lambda>u. [])\<rparr>
      in if spotifyRefreshToken st \<noteq> None \<and> spotifyAccessToken st \<noteq> None
         then refreshSpotifyToken t1 (spotifyRefreshToken st) (spotifyAccessToken st) False st
         else (st, []))"

text \<open>
  The command \<^verbatim>\<open>/spotifytoken\<close> of an admin starts the authorization-code exchange;
  its two callbacks run when the answer arrives.
\<close>

definition spotifytoken_command :: "int \<Rightarrow> string option \<Rightarrow> effect list" where
  "spotifytoken_command from_id spotifyCode =
     (if isAdmin from_id then [AuthorizationCodeGrant spotifyCode] else [])"

definition spotifytoken_fulfilled :: "grant_body \<Rightarrow> bot_state \<Rightarrow> bot_state \<times> effect list" where
  "spotifytoken_fulfilled d st =
     (st\<lparr>api_accessToken := Some (access_token d),
         api_refreshToken := Some (refresh_token d),
         storage := (storage st)(''spotify_refresh_token'' \<mapsto> refresh_token d,
                                 ''spotify_access_token'' \<mapsto> access_token d)\<rparr>,
      [Reply (''Authorized. The token expires in '' @ digits (expires_in d)),
       StorageSetItem ''spotify_refresh_token'' (refresh_token d),
       StorageSetItem ''spotify_access_token'' (access_token d),
       Reply ''Login finished and saved''])"

definition spotifytoken_rejected :: "bot_state \<Rightarrow> bot_state \<times> effect list" where
  "spotifytoken_rejected st = (st, [Reply ''Something went wrong!''])"

section \<open>Track lookup and queue\<close>

text \<open>
  \<^verbatim>\<open>resolveTrack(uri)\<close>; \<open>lookup\<close> is the answer of \<^verbatim>\<open>getTrack\<close>. The result is the
  track, \<^verbatim>\<open>undefined\<close> (\<open>Inr None\<close>), or the error the \<^verbatim>\<open>await\<close> throws.
\<close>

definition resolveTrack ::
  "int \<Rightarrow> string \<Rightarrow> track promise \<Rightarrow> bot_state \<Rightarrow> bot_state \<times> effect list \<times> (string + track option)" where
  "resolveTrack now uri lookup st =
     (case regex_search uri_regex_at uri of
        None \<Rightarrow> (st, [], Inr None)
      | Some trackId \<Rightarrow>
          (case getSpotify now True st of
             (st', es) \<Rightarrow>
               (st', es @ [GetTrack trackId (api_accessToken st')],
                (case lookup of Fulfilled t \<Rightarrow> Inr (Some t) | Rejected err \<Rightarrow> Inl err))))"

definition addToSpotifyQueue :: "int \<Rightarrow> string \<Rightarrow> bot_state \<Rightarrow> bot_state \<times> effect list" where
  "addToSpotifyQueue now uri st =
     (case getSpotify now True st of
        (st', es) \<Rightarrow> (st', es @ [AddToQueue uri (api_accessToken st')]))"

section \<open>The rate limiter of the message route\<close>

text \<open>
  \<^verbatim>\<open>trackLimitConfig\<close>: the window in milliseconds, the limit, and what
  \<^verbatim>\<open>onLimitExceeded\<close> does. Its \<^verbatim>\<open>keyGenerator\<close> is \<^verbatim>\<open>ctx.from.id\<close>.
\<close>

record limit_config =
  window :: int
  limit :: nat
  onLimitExceeded :: "effect list"

definition trackLimitConfig :: limit_config where
  "trackLimitConfig =
     \<lparr>window = 5 * 60 * 1000, limit = 3,
      onLimitExceeded = [Reply (''Limit '' @ uuml @ ''berschritten, bitte warten!'')]\<rparr>"

text \<open>
  Modelled from the spec: the middleware \<^verbatim>\<open>rateLimit(config)\<close> comes from the package
  \<^verbatim>\<open>telegraf-ratelimit\<close>, whose code is not among the sources; only its configuration
  and its place in the message route are. The specification gives its contract
  \<^verbatim>\<open>allow(userId, now)\<close>: each call prunes the timestamps older than \<open>now - W\<close> from the
  user's window, then tests whether fewer than \<open>N\<close> remain; if so it records \<open>now\<close>
  and allows, otherwise it denies without recording.
\<close>

definition prune :: "int \<Rightarrow> int \<Rightarrow> int list \<Rightarrow> int list" where
  "prune w now ts = filter (\<lambda>t. now - w \<le> t) ts"

definition allow :: "limit_config \<Rightarrow> (int \<Rightarrow> int list) \<Rightarrow> int \<Rightarrow> int \<Rightarrow> bool \<times> (int \<Rightarrow> int list)" where
  "allow cfg h userId now =
     (let ts = prune (window cfg) now (h userId)
      in if length ts < limit cfg
         then (True, h(userId := ts @ [now]))
         else (False, h(userId := ts)))"

text \<open>
  The calls of a sequence \<open>(userId, now)\<close> that the limiter allows to user \<open>u\<close>, by
  their times.
\<close>

fun allowed_times :: "limit_config \<Rightarrow> (int \<Rightarrow> int list) \<Rightarrow> (int \<times> int) list \<Rightarrow> int \<Rightarrow> int list" where
  "allowed_times cfg h [] u = []"
| "allowed_times cfg h ((v, t) # evs) u =
     (case allow cfg h v t of
        (ok, h') \<Rightarrow> (if ok \<and> v = u then [t] else []) @ allowed_times cfg h' evs u)"

section \<open>The message route\<close>

text \<open>
  The route \<^verbatim>\<open>bot.on('message', rateLimit(trackLimitConfig), ...)\<close>. The
  application-wide limiter, which every update passes before it reaches a route, follows
  the vote actions below.
\<close>

record message_ctx =
  msg_chat_id :: int
  msg_from :: user
  msg_text :: jsval

definition help_reply :: string where
  "help_reply = ''Keine g'' @ uuml @ ''ltige Spotify-URL. Sende /help f'' @ uuml @ ''r Hilfe.''"

text \<open>The vote message that \<^verbatim>\<open>bot.telegram.sendMessage\<close> posts to the voting group.\<close>

definition accept_callback_data :: "string \<Rightarrow> string" where
  "accept_callback_data spotifyUri = ''accept:'' @ spotifyUri"

definition vote_message :: "string \<Rightarrow> track \<Rightarrow> user \<Rightarrow> effect" where
  "vote_message spotifyUri trackInfo sender =
     (let trackDescription = formatTrackInfo trackInfo;
          requester = formatUser sender
      in SendMessage votingGroup
           (''Anfrage von '' @ requester @ [CHR 0x0A]
              @ info_name trackDescription @ '' '' @ bullet @ '' '' @ info_artists trackDescription)
           [[CallbackButton (check_mark @ '' In Queue'') (accept_callback_data spotifyUri),
             CallbackButton (cross_mark @ '' L'' @ ouml @ ''schen'') ''decline''],
            [UrlButton ''Auf Spotify.com anzeigen'' (track_url trackInfo)]]
           (if votingGroupThread = [] then None else Some votingGroupThread))"

text \<open>
  The handler of \<^verbatim>\<open>bot.on('message', ...)\<close>, behind the limiter. \<open>lookup\<close> is the answer
  of the track lookup. \<^verbatim>\<open>formatTrackInfo(undefined)\<close> throws a \<^verbatim>\<open>TypeError\<close>.
\<close>

definition message_handler ::
  "int \<Rightarrow> message_ctx \<Rightarrow> track promise \<Rightarrow> bot_state \<Rightarrow> bot_state \<times> effect list \<times> outcome" where
  "message_handler now ctx lookup st =
     (if isVotingGroup (msg_chat_id ctx) then (st, [], Completed)
      else
        (case spotifyUrlToUri (msg_text ctx) of
           None \<Rightarrow> (st, [Reply help_reply], Completed)
         | Some spotifyUri \<Rightarrow>
             (case resolveTrack now spotifyUri lookup st of
                (st', es, Inl err) \<Rightarrow> (st', es, HandlerRejected err)
              | (st', es, Inr None) \<Rightarrow> (st', es, HandlerRejected ''TypeError'')
              | (st', es, Inr (Some trackInfo)) \<Rightarrow>
                  (let trackDescription = formatTrackInfo trackInfo
                   in (st',
                       es @ [vote_message spotifyUri trackInfo (msg_from ctx),
                             Reply (info_name trackDescription @ '' von ''
                                    @ info_artists trackDescription @ '' wurde angefragt.'')],
                       Completed)))))"

text \<open>The route: \<^verbatim>\<open>rateLimit(trackLimitConfig)\<close>, then the handler.\<close>

definition on_message ::
  "int \<Rightarrow> message_ctx \<Rightarrow> track promise \<Rightarrow> bot_state \<Rightarrow> bot_state \<times> effect list \<times> outcome" where
  "on_message now ctx lookup st =
     (case allow trackLimitConfig (hits st) (uid (msg_from ctx)) now of
        (True, h) \<Rightarrow> message_handler now ctx lookup (st\<lparr>hits := h\<rparr>)
      | (False, h) \<Rightarrow> (st\<lparr>hits := h\<rparr>, onLimitExceeded trackLimitConfig, Completed))"

section \<open>The vote actions\<close>

text \<open>
  The context of a tapped button: the message it belongs to, the callback data, the
  voter, and \<^verbatim>\<open>ctx.text\<close>.
\<close>

record callback_ctx =
  cb_message_id :: int
  cb_data :: string
  cb_from :: user
  cb_text :: string

text \<open>
  The callback that \<^verbatim>\<open>bot.action(/^accept:.../)\<close> chains to the queue call with
  \<^verbatim>\<open>then\<close>, run at time \<open>now\<close> when that call is fulfilled.
\<close>

definition accept_then ::
  "int \<Rightarrow> callback_ctx \<Rightarrow> string \<Rightarrow> track promise \<Rightarrow> bot_state \<Rightarrow> bot_state \<times> effect list \<times> outcome" where
  "accept_then now ctx uri lookup st =
     (case resolveTrack now uri lookup st of
        (st', es, Inl err) \<Rightarrow> (st', es, UnhandledRejection err)
      | (st', es, Inr track) \<Rightarrow>
          (let trackDescription =
                 (case track of
                    None \<Rightarrow> uri
                  | Some t \<Rightarrow>
                      info_name (formatTrackInfo t) @ '' '' @ bullet @ '' ''
                        @ info_artists (formatTrackInfo t))
           in (st',
               es @ [Reply (''Lied zur Queue hinzugef'' @ uuml @ ''gt: '' @ trackDescription)]
                  @ (if deleteMessageAfterAcceptDecline then [DeleteMessage]
                     else [EditMessageText
                             (''Von '' @ formatUser (cb_from ctx) @ '' abgelehnt: '' @ cb_text ctx),
                           EditMessageReplyMarkup]),
               Completed)))"

text \<open>
  The approve action: the queue call is made at time \<open>now\<close>; \<open>queued\<close> is its answer,
  which arrives at time \<open>now'\<close>. The chain has no rejection handler.
\<close>

definition accept_action ::
  "int \<Rightarrow> int \<Rightarrow> callback_ctx \<Rightarrow> string \<Rightarrow> unit promise \<Rightarrow> track promise \<Rightarrow> bot_state
     \<Rightarrow> bot_state \<times> effect list \<times> outcome" where
  "accept_action now now' ctx uri queued lookup st =
     (case addToSpotifyQueue now uri st of
        (st1, es1) \<Rightarrow>
          (case queued of
             Rejected err \<Rightarrow> (st1, es1, UnhandledRejection err)
           | Fulfilled u \<Rightarrow>
               (case accept_then now' ctx uri lookup st1 of
                  (st2, es2, out) \<Rightarrow> (st2, es1 @ es2, out))))"

text \<open>The decline action, \<^verbatim>\<open>bot.action('decline', ...)\<close>.\<close>

definition decline_action :: "callback_ctx \<Rightarrow> bot_state \<Rightarrow> bot_state \<times> effect list \<times> outcome" where
  "decline_action ctx st =
     (st,
      (if deleteMessageAfterAcceptDecline then [DeleteMessage]
       else [EditMessageText
               (''Von '' @ formatUser (cb_from ctx) @ '' abgelehnt: '' @ cb_text ctx),
             EditMessageReplyMarkup]),
      Completed)"

text \<open>
  A button tap goes to the first action whose trigger matches the callback data: the
  pattern of the approve action, then the string \<^verbatim>\<open>decline\<close>.
\<close>

record vote_event =
  vote_now :: int
  vote_now' :: int
  vote_ctx :: callback_ctx
  vote_queued :: "unit promise"
  vote_lookup :: "track promise"

definition on_callback_query :: "vote_event \<Rightarrow> bot_state \<Rightarrow> bot_state \<times> effect list \<times> outcome" where
  "on_callback_query ev st =
     (case accept_regex (cb_data (vote_ctx ev)) of
        Some uri \<Rightarrow>
          accept_action (vote_now ev) (vote_now' ev) (vote_ctx ev) uri
            (vote_queued ev) (vote_lookup ev) st
      | None \<Rightarrow>
          if cb_data (vote_ctx ev) = ''decline'' then decline_action (vote_ctx ev) st
          else (st, [], Completed))"

section \<open>The application-wide limiter\<close>

text \<open>
  \<^verbatim>\<open>bot.use(rateLimit())\<close> is registered before every command, action and route, so
  every update passes it first. It is the same middleware with a store of its own, keyed
  on \<^verbatim>\<open>ctx.from.id\<close>, and it runs with the defaults of the package. The defaults are not
  in the sources: the configuration \<open>dflt\<close> is a parameter of the model, and \<open>a\<close> is the
  store of this limiter. An update that it denies gets \<open>onLimitExceeded dflt\<close> and
  reaches no route.
\<close>

definition update_message ::
  "limit_config \<Rightarrow> int \<Rightarrow> message_ctx \<Rightarrow> track promise \<Rightarrow> (int \<Rightarrow> int list) \<Rightarrow> bot_state
     \<Rightarrow> (int \<Rightarrow> int list) \<times> bot_state \<times> effect list \<times> outcome" where
  "update_message dflt now ctx lookup a st =
     (case allow dflt a (uid (msg_from ctx)) now of
        (True, a') \<Rightarrow>
          (case on_message now ctx lookup st of (st', es, out) \<Rightarrow> (a', st', es, out))
      | (False, a') \<Rightarrow> (a', st, onLimitExceeded dflt, Completed))"

definition update_callback_query ::
  "limit_config \<Rightarrow> vote_event \<Rightarrow> (int \<Rightarrow> int list) \<Rightarrow> bot_state
     \<Rightarrow> (int \<Rightarrow> int list) \<times> bot_state \<times> effect list \<times> outcome" where
  "update_callback_query dflt ev a st =
     (case allow dflt a (uid (cb_from (vote_ctx ev))) (vote_now ev) of
        (True, a') \<Rightarrow>
          (case on_callback_query ev st of (st', es, out) \<Rightarrow> (a', st', es, out))
      | (False, a') \<Rightarrow> (a', st, onLimitExceeded dflt, Completed))"

text \<open>
  A sequence of messages, each with its time and the answer of its lookup: what each
  one causes, in order.
\<close>

fun run_messages ::
  "limit_config \<Rightarrow> (int \<Rightarrow> int list) \<Rightarrow> bot_state \<Rightarrow> (int \<times> message_ctx \<times> track promise) list
     \<Rightarrow> (effect list \<times> outcome) list" where
  "run_messages dflt a st [] = []"
| "run_messages dflt a st ((now, ctx, lookup) # ms) =
     (case update_message dflt now ctx lookup a st of
        (a', st', es, out) \<Rightarrow> (es, out) # run_messages dflt a' st' ms)"

text \<open>The effects of a sequence of button taps, in order.\<close>

fun run_votes :: "limit_config \<Rightarrow> (int \<Rightarrow> int list) \<Rightarrow> bot_state \<Rightarrow> vote_event list \<Rightarrow> effect list" where
  "run_votes dflt a st [] = []"
| "run_votes dflt a st (ev # evs) =
     (case update_callback_query dflt ev a st of
        (a', st', es, out) \<Rightarrow> es @ run_votes dflt a' st' evs)"

text \<open>The taps of a sequence that the application-wide limiter admits to the actions.\<close>

fun admitted_taps :: "limit_config \<Rightarrow> (int \<Rightarrow> int list) \<Rightarrow> vote_event list \<Rightarrow> vote_event list" where
  "admitted_taps dflt a [] = []"
| "admitted_taps dflt a (ev # evs) =
     (case allow dflt a (uid (cb_from (vote_ctx ev))) (vote_now ev) of
        (ok, a') \<Rightarrow> (if ok then [ev] else []) @ admitted_taps dflt a' evs)"

section \<open>Notions of the specification\<close>

text \<open>
  The text holds a full web track URL at position \<open>n\<close>, with identifier \<open>ident\<close>: the
  scheme, the host \<^verbatim>\<open>open.spotify.com\<close>, the segment \<^verbatim>\<open>/track/\<close> and the identifier, which
  is the whole run of identifier characters that follows (it ends at the end of the text
  or before a character such as \<^verbatim>\<open>?\<close>).
\<close>

definition spec_track_url_at :: "string \<Rightarrow> nat \<Rightarrow> string \<Rightarrow> bool" where
  "spec_track_url_at text n ident \<longleftrightarrow>
     n \<le> length text \<and>
     (\<exists>scheme rest.
        (scheme = ''http'' \<or> scheme = ''https'') \<and>
        drop n text = scheme @ ''://open.spotify.com/track/'' @ ident @ rest \<and>
        ident \<noteq> [] \<and> list_all word_char ident \<and>
        (rest = [] \<or> \<not> word_char (hd rest)))"

text \<open>The callback data of the buttons of a posted message, in order.\<close>

fun button_data :: "button \<Rightarrow> string list" where
  "button_data (CallbackButton label d) = [d]"
| "button_data (UrlButton label url) = []"

fun callback_data_of :: "effect \<Rightarrow> string list" where
  "callback_data_of (SendMessage chat txt keyboard thread) = concat (map button_data (concat keyboard))"
| "callback_data_of e = []"

text \<open>The times of a list that lie in the window of width \<open>w\<close> that starts at \<open>a\<close>.\<close>

definition in_window :: "int \<Rightarrow> int \<Rightarrow> int list \<Rightarrow> int list" where
  "in_window w a ts = filter (\<lambda>t. a \<le> t \<and> t \<le> a + w) ts"

section \<open>Concrete inputs\<close>

text \<open>
  A bot started at time 0 on an empty store, two users, a track, messages and button
  taps: the inputs at which the theorems below are evaluated.
\<close>

text \<open>
  The application-wide limiter at one update per second and user, a denied update
  dropped without a reply.
\<close>

definition one_per_second :: limit_config where
  "one_per_second = \<lparr>window = 1000, limit = 1, onLimitExceeded = []\<rparr>"

definition fresh_state :: bot_state where
  "fresh_state = fst (startup 0 0 Map.empty)"

text \<open>
  A bot started on a store that holds a pair of tokens, after the refresh of the setup
  has been answered: the access token is valid until time 3600000.
\<close>

definition ready_state :: bot_state where
  "ready_state =
     refresh_fulfilled 0 \<lparr>refreshed_access_token = ''access-1'', refreshed_expires_in = 3600\<rparr>
       (fst (startup 0 0 [''spotify_refresh_token'' \<mapsto> ''refresh-1'',
                          ''spotify_access_token'' \<mapsto> ''access-0'']))"

definition ann :: user where
  "ann = \<lparr>uid = 7, first_name = ''Ann'', username = Some ''ann1''\<rparr>"

definition bob :: user where
  "bob = \<lparr>uid = 8, first_name = ''Bob'', username = None\<rparr>"

definition some_track :: track where
  "some_track =
     \<lparr>track_name = ''Song'', track_artists = [''A'', ''B''],
      track_url = ''https://open.spotify.com/track/abc''\<rparr>"

definition link_message :: "int \<Rightarrow> message_ctx" where
  "link_message chat =
     \<lparr>msg_chat_id = chat, msg_from = ann,
      msg_text = Str ''https://open.spotify.com/track/abc?si=1''\<rparr>"

definition photo_message :: message_ctx where
  "photo_message = \<lparr>msg_chat_id = 42, msg_from = ann, msg_text = Undefined\<rparr>"

definition tap :: "user \<Rightarrow> string \<Rightarrow> vote_event" where
  "tap voter d =
     \<lparr>vote_now = 10, vote_now' = 11,
      vote_ctx = \<lparr>cb_message_id = 99, cb_data = d, cb_from = voter, cb_text = ''Anfrage von Ann''\<rparr>,
      vote_queued = Fulfilled (), vote_lookup = Fulfilled some_track\<rparr>"

definition tap_at :: "int \<Rightarrow> user \<Rightarrow> string \<Rightarrow> vote_event" where
  "tap_at now voter d = (tap voter d)\<lparr>vote_now := now, vote_now' := now + 1\<rparr>"

section \<open>Properties of the link parser\<close>

lemma strip_prefix_Some: "strip_prefix p s = Some r \<longleftrightarrow> s = p @ r"
  by (induction p s rule: strip_prefix.induct) auto

lemma strip_prefix_append: "strip_prefix p (p @ r) = Some r"
  by (simp add: strip_prefix_Some)

lemma takeWhile_run:
  "list_all P g \<Longrightarrow> rest = [] \<or> \<not> P (hd rest) \<Longrightarrow> takeWhile P (g @ rest) = g"
  by (induction g) (cases rest; auto)+

lemma word_group_Some:
  "word_group s = Some g \<longleftrightarrow>
     (\<exists>rest. s = g @ rest \<and> g \<noteq> [] \<and> list_all word_char g \<and> (rest = [] \<or> \<not> word_char (hd rest)))"
proof
  assume h: "word_group s = Some g"
  then have g: "g = takeWhile word_char s" "g \<noteq> []"
    by (auto simp: word_group_def Let_def split: if_splits)
  have "s = g @ dropWhile word_char s" using g by simp
  moreover have "list_all word_char g" using g by (simp add: list_all_iff) (meson set_takeWhileD)
  moreover have "dropWhile word_char s = [] \<or> \<not> word_char (hd (dropWhile word_char s))"
    by (metis hd_dropWhile)
  ultimately show "\<exists>rest. s = g @ rest \<and> g \<noteq> [] \<and> list_all word_char g \<and> (rest = [] \<or> \<not> word_char (hd rest))"
    using g by blast
next
  assume "\<exists>rest. s = g @ rest \<and> g \<noteq> [] \<and> list_all word_char g \<and> (rest = [] \<or> \<not> word_char (hd rest))"
  then obtain rest where r: "s = g @ rest" "g \<noteq> []" "list_all word_char g" "rest = [] \<or> \<not> word_char (hd rest)"
    by blast
  then have "takeWhile word_char s = g" using takeWhile_run by blast
  then show "word_group s = Some g" using r by (simp add: word_group_def)
qed

lemma track_tail_Some:
  "track_tail s = Some g \<longleftrightarrow> (\<exists>r. s = ''://open.spotify.com/track/'' @ r \<and> word_group r = Some g)"
  unfolding track_tail_def
  by (cases "strip_prefix ''://open.spotify.com/track/'' s") (simp_all only: strip_prefix_Some option.simps, auto simp: strip_prefix_Some)

lemma track_regex_at_Some:
  "track_regex_at s = Some g \<longleftrightarrow>
     (\<exists>scheme r. (scheme = ''http'' \<or> scheme = ''https'') \<and>
        s = scheme @ ''://open.spotify.com/track/'' @ r \<and> word_group r = Some g)"
proof (cases "strip_prefix ''http'' s")
  case None
  then have "\<not> (\<exists>r. s = ''http'' @ r)" by (metis strip_prefix_Some option.distinct(1))
  then have "\<not> (\<exists>scheme r. (scheme = ''http'' \<or> scheme = ''https'') \<and>
        s = scheme @ ''://open.spotify.com/track/'' @ r \<and> word_group r = Some g)"
    by auto
  then show ?thesis using None by (simp add: track_regex_at_def)
next
  case (Some r0)
  then have s: "s = ''http'' @ r0" by (simp add: strip_prefix_Some)
  show ?thesis
  proof (cases "\<exists>r' g'. r0 = ''s'' @ r' \<and> track_tail r' = Some g'")
    case True
    then obtain r' g' where r': "r0 = ''s'' @ r'" "track_tail r' = Some g'" by blast
    have "track_regex_at s = Some g'"
      using Some r' by (simp add: track_regex_at_def)
    moreover have "track_tail r0 = None"
      using r' by (simp add: track_tail_def)
    ultimately show ?thesis
      using s r' by (auto simp: track_tail_Some)
  next
    case False
    then have "(case strip_prefix ''s'' r0 of None \<Rightarrow> None | Some r' \<Rightarrow> track_tail r') = None"
      by (auto split: option.splits simp: strip_prefix_Some)
    then have "track_regex_at s = track_tail r0"
      using Some by (simp add: track_regex_at_def split: option.splits)
    then show ?thesis
      using s False by (auto simp: track_tail_Some)
  qed
qed

lemma regex_search_first:
  "n \<le> length s \<Longrightarrow> m (drop n s) = Some g \<Longrightarrow> (\<forall>k<n. m (drop k s) = None) \<Longrightarrow>
   regex_search m s = Some g"
proof (induction s arbitrary: n)
  case Nil
  then show ?case by simp
next
  case (Cons c cs)
  show ?case
  proof (cases n)
    case 0
    then show ?thesis using Cons.prems by simp
  next
    case (Suc k)
    have "m (c # cs) = None" using Cons.prems(3) Suc by (metis drop0 zero_less_Suc)
    moreover have "regex_search m cs = Some g"
    proof (rule Cons.IH[of k])
      show "k \<le> length cs" using Cons.prems(1) Suc by simp
      show "m (drop k cs) = Some g" using Cons.prems(2) Suc by simp
      show "\<forall>j<k. m (drop j cs) = None"
      proof (intro allI impI)
        fix j assume "j < k"
        then have "Suc j < n" using Suc by simp
        then have "m (drop (Suc j) (c # cs)) = None" using Cons.prems(3) by blast
        then show "m (drop j cs) = None" by simp
      qed
    qed
    ultimately show ?thesis by simp
  qed
qed

lemma regex_search_None:
  "(\<forall>n\<le>length s. m (drop n s) = None) \<Longrightarrow> regex_search m s = None"
proof (induction s)
  case Nil
  then show ?case by simp
next
  case (Cons c cs)
  have "m (c # cs) = None" using Cons.prems by (metis drop0 le0)
  moreover have "\<forall>n\<le>length cs. m (drop n cs) = None"
  proof (intro allI impI)
    fix n assume "n \<le> length cs"
    then have "m (drop (Suc n) (c # cs)) = None" using Cons.prems by (metis Suc_le_mono length_Cons)
    then show "m (drop n cs) = None" by simp
  qed
  ultimately show ?case using Cons.IH by simp
qed

lemma track_regex_at_spec:
  "n \<le> length text \<Longrightarrow> track_regex_at (drop n text) = Some g \<longleftrightarrow> spec_track_url_at text n g"
  unfolding spec_track_url_at_def track_regex_at_Some word_group_Some by auto

lemma parse_first_url:
  assumes "spec_track_url_at text n ident" and "\<forall>m<n. \<forall>i. \<not> spec_track_url_at text m i"
  shows "spotifyUrlToUri (Str text) = Some (''spotify:track:'' @ ident)"
proof -
  have n: "n \<le> length text" using assms(1) by (simp add: spec_track_url_at_def)
  have here: "track_regex_at (drop n text) = Some ident"
    using assms(1) n by (simp add: track_regex_at_spec)
  have before: "\<forall>k<n. track_regex_at (drop k text) = None"
  proof (intro allI impI)
    fix k assume k: "k < n"
    then have "k \<le> length text" using n by simp
    then have "\<forall>i. track_regex_at (drop k text) \<noteq> Some i"
      using assms(2) k by (simp add: track_regex_at_spec)
    then show "track_regex_at (drop k text) = None" by (cases "track_regex_at (drop k text)") auto
  qed
  have "regex_search track_regex_at text = Some ident"
    using regex_search_first[OF n here before] .
  moreover have "text \<noteq> []"
    using assms(1) by (auto simp: spec_track_url_at_def)
  ultimately show ?thesis by simp
qed

lemma parse_no_url:
  assumes "\<forall>n i. \<not> spec_track_url_at text n i"
  shows "spotifyUrlToUri (Str text) = None"
proof -
  have "\<forall>n\<le>length text. track_regex_at (drop n text) = None"
  proof (intro allI impI)
    fix n assume n: "n \<le> length text"
    then have "\<forall>i. track_regex_at (drop n text) \<noteq> Some i"
      using assms by (simp add: track_regex_at_spec)
    then show "track_regex_at (drop n text) = None" by (cases "track_regex_at (drop n text)") auto
  qed
  then have "regex_search track_regex_at text = None" by (rule regex_search_None)
  then show ?thesis by simp
qed

lemma regex_search_Some_at:
  "regex_search m s = Some g \<Longrightarrow> \<exists>n\<le>length s. m (drop n s) = Some g"
proof (induction s)
  case Nil
  then show ?case by simp
next
  case (Cons c cs)
  show ?case
  proof (cases "m (c # cs)")
    case None
    then have "regex_search m cs = Some g" using Cons.prems by simp
    then obtain n where "n \<le> length cs" "m (drop n cs) = Some g" using Cons.IH by blast
    then have "Suc n \<le> length (c # cs) \<and> m (drop (Suc n) (c # cs)) = Some g" by simp
    then show ?thesis by blast
  next
    case (Some a)
    then have "m (drop 0 (c # cs)) = Some g" using Cons.prems by simp
    then show ?thesis by blast
  qed
qed

lemma spotifyUrlToUri_shape:
  assumes "spotifyUrlToUri v = Some u"
  shows "\<exists>g. u = ''spotify:track:'' @ g \<and> g \<noteq> [] \<and> list_all word_char g"
proof -
  obtain url where v: "v = Str url" using assms by (cases v) auto
  then obtain g where g: "regex_search track_regex_at url = Some g" "u = ''spotify:track:'' @ g"
    using assms by (auto split: if_splits option.splits)
  obtain n where "track_regex_at (drop n url) = Some g"
    using regex_search_Some_at[OF g(1)] by blast
  then obtain r where "word_group r = Some g"
    using track_regex_at_Some[of "drop n url" g] by blast
  then have "g \<noteq> [] \<and> list_all word_char g"
    using word_group_Some[of r g] by blast
  then show ?thesis using g by blast
qed

lemma word_group_whole: "g \<noteq> [] \<Longrightarrow> list_all word_char g \<Longrightarrow> word_group g = Some g"
  using word_group_Some[of g g] by simp

lemma accept_regex_uri:
  "g \<noteq> [] \<Longrightarrow> list_all word_char g \<Longrightarrow>
   accept_regex (accept_callback_data (''spotify:track:'' @ g)) = Some (''spotify:track:'' @ g)"
proof -
  assume g: "g \<noteq> []" "list_all word_char g"
  have "strip_prefix ''accept:'' (''accept:'' @ (''spotify:track:'' @ g)) = Some (''spotify:track:'' @ g)"
    by (rule strip_prefix_append)
  moreover have "strip_prefix ''spotify:track:'' (''spotify:track:'' @ g) = Some g"
    by (rule strip_prefix_append)
  ultimately show ?thesis
    using word_group_whole[OF g]
    by (simp only: accept_regex_def accept_callback_data_def uri_regex_at_def option.simps)
qed

text \<open>
  Claim C2. Where the text holds a full web track URL, with or without a query string
  after it, \<open>spotifyUrlToUri\<close> returns \<^verbatim>\<open>spotify:track:\<close> followed by the identifier
  of the URL, unchanged; of several URLs the first one is taken. Where the text holds no
  such URL it returns nothing. A URL alone and the same URL followed by \<^verbatim>\<open>?query\<close> give
  the same URI, and the link of the scenario gives
  \<^verbatim>\<open>spotify:track:5hvIZF56tE8sAwMA9cKmQQ\<close>.
\<close>

theorem spotifyUrlToUri_track_url:
  "(spec_track_url_at text n ident \<and> (\<forall>m<n. \<forall>i. \<not> spec_track_url_at text m i)
      \<longrightarrow> spotifyUrlToUri (Str text) = Some (''spotify:track:'' @ ident))
   \<and> ((\<forall>k i. \<not> spec_track_url_at other k i) \<longrightarrow> spotifyUrlToUri (Str other) = None)
   \<and> ((scheme = ''http'' \<or> scheme = ''https'') \<and> tid \<noteq> [] \<and> list_all word_char tid
      \<longrightarrow> spotifyUrlToUri (Str (scheme @ ''://open.spotify.com/track/'' @ tid @ ''?'' @ query))
            = Some (''spotify:track:'' @ tid)
        \<and> spotifyUrlToUri (Str (scheme @ ''://open.spotify.com/track/'' @ tid))
            = Some (''spotify:track:'' @ tid))
   \<and> spotifyUrlToUri (Str ''https://open.spotify.com/track/5hvIZF56tE8sAwMA9cKmQQ?si=abc'')
       = Some ''spotify:track:5hvIZF56tE8sAwMA9cKmQQ''"
proof (intro conjI impI)
  assume "spec_track_url_at text n ident \<and> (\<forall>m<n. \<forall>i. \<not> spec_track_url_at text m i)"
  then show "spotifyUrlToUri (Str text) = Some (''spotify:track:'' @ ident)"
    using parse_first_url by blast
next
  assume "\<forall>k i. \<not> spec_track_url_at other k i"
  then show "spotifyUrlToUri (Str other) = None" by (rule parse_no_url)
next
  assume h: "(scheme = ''http'' \<or> scheme = ''https'') \<and> tid \<noteq> [] \<and> list_all word_char tid"
  have q: "\<not> word_char (CHR ''?'')" by (simp add: word_char_def)
  have "spec_track_url_at (scheme @ ''://open.spotify.com/track/'' @ tid @ ''?'' @ query) 0 tid"
    unfolding spec_track_url_at_def using h q
    by (intro conjI exI[of _ scheme] exI[of _ "''?'' @ query"]) simp_all
  then show "spotifyUrlToUri (Str (scheme @ ''://open.spotify.com/track/'' @ tid @ ''?'' @ query))
      = Some (''spotify:track:'' @ tid)"
    using parse_first_url by blast
next
  assume h: "(scheme = ''http'' \<or> scheme = ''https'') \<and> tid \<noteq> [] \<and> list_all word_char tid"
  have "spec_track_url_at (scheme @ ''://open.spotify.com/track/'' @ tid) 0 tid"
    unfolding spec_track_url_at_def using h
    by (intro conjI exI[of _ scheme] exI[of _ "[]"]) simp_all
  then show "spotifyUrlToUri (Str (scheme @ ''://open.spotify.com/track/'' @ tid))
      = Some (''spotify:track:'' @ tid)"
    using parse_first_url by blast
next
  show "spotifyUrlToUri (Str ''https://open.spotify.com/track/5hvIZF56tE8sAwMA9cKmQQ?si=abc'')
       = Some ''spotify:track:5hvIZF56tE8sAwMA9cKmQQ''"
    by (simp add: track_regex_at_def track_tail_def word_group_def word_char_def)
qed

theorem spotifyUrlToUri_track_url_witness:
  "spotifyUrlToUri (Str ''hi http://open.spotify.com/track/ab-c'') = Some ''spotify:track:ab''
   \<and> spotifyUrlToUri (Str ''hello'') = None
   \<and> spotifyUrlToUri (Str ''https://open.spotify.com/track/a_1?si=1'') = Some ''spotify:track:a_1''
   \<and> spotifyUrlToUri (Str ''https://open.spotify.com/track/a_1'') = Some ''spotify:track:a_1''"
proof -
  have w: "list_all word_char ''ab''" "list_all word_char ''a_1''" "\<not> word_char CHR ''-''"
    by (simp_all add: word_char_def)
  have h1: "spec_track_url_at ''hi http://open.spotify.com/track/ab-c'' 3 ''ab''"
    unfolding spec_track_url_at_def using w
    by (intro conjI exI[of _ "''http''"] exI[of _ "''-c''"]) simp_all
  have h2: "\<forall>m<3. \<forall>i. \<not> spec_track_url_at ''hi http://open.spotify.com/track/ab-c'' m i"
    by (auto simp: spec_track_url_at_def less_Suc_eq numeral_3_eq_3)
  have h3: "\<forall>k i. \<not> spec_track_url_at ''hello'' k i"
    by (auto simp: spec_track_url_at_def dest!: arg_cong[where f = length])
  show ?thesis
    using spotifyUrlToUri_track_url[of "''hi http://open.spotify.com/track/ab-c''" 3 "''ab''"
        "''hello''" "''https''" "''a_1''" "''si=1''"] h1 h2 h3 w
    by simp
qed

section \<open>Properties of the rate limiter\<close>

lemma prune_prune: "L \<le> now \<Longrightarrow> prune w now (filter (\<lambda>t. L - w \<le> t) past) = prune w now past"
  unfolding prune_def by (induction past) auto

lemma in_window_sub_prune:
  assumes "a \<le> now" "now \<le> a + w"
  shows "length (in_window w a past) \<le> length (prune w now past)"
proof -
  have "in_window w a past = filter (\<lambda>t. a \<le> t \<and> t \<le> a + w) (prune w now past)"
    unfolding in_window_def prune_def using assms by (induction past) auto
  then show ?thesis by simp
qed

lemma in_window_snoc_bound:
  assumes bound: "\<forall>a. length (in_window w a past) \<le> N"
    and room: "length (prune w now past) < N"
  shows "length (in_window w a (past @ [now])) \<le> N"
proof (cases "a \<le> now \<and> now \<le> a + w")
  case True
  then have "length (in_window w a past) \<le> length (prune w now past)"
    using in_window_sub_prune by blast
  then show ?thesis using room True by (simp add: in_window_def)
next
  case False
  then have "in_window w a (past @ [now]) = in_window w a past" by (auto simp: in_window_def)
  then show ?thesis using bound by simp
qed

lemma allowed_times_window:
  assumes "0 \<le> window cfg"
  shows "sorted (map snd evs) \<Longrightarrow> (\<forall>e\<in>set evs. L \<le> snd e) \<Longrightarrow>
         h u = filter (\<lambda>t. L - window cfg \<le> t) past \<Longrightarrow>
         (\<forall>a. length (in_window (window cfg) a past) \<le> limit cfg) \<Longrightarrow>
         length (in_window (window cfg) a (past @ allowed_times cfg h evs u)) \<le> limit cfg"
proof (induction evs arbitrary: h L past)
  case Nil
  then show ?case by simp
next
  case (Cons e evs)
  obtain v t where e: "e = (v, t)" by (cases e)
  have Lt: "L \<le> t" using Cons.prems(2) e by simp
  have srt: "sorted (map snd evs)" using Cons.prems(1) by simp
  have later: "\<forall>e'\<in>set evs. t \<le> snd e'" using Cons.prems(1) e by auto
  show ?case
  proof (cases "v = u")
    case False
    obtain ok h' where a: "allow cfg h v t = (ok, h')" by (cases "allow cfg h v t")
    then have hu: "h' u = h u" using False by (auto simp: allow_def Let_def split: if_splits)
    have "length (in_window (window cfg) a (past @ allowed_times cfg h' evs u)) \<le> limit cfg"
    proof (rule Cons.IH[of L h' past])
      show "sorted (map snd evs)" by (rule srt)
      show "\<forall>e\<in>set evs. L \<le> snd e" using Cons.prems(2) by simp
      show "h' u = filter (\<lambda>t. L - window cfg \<le> t) past" using hu Cons.prems(3) by simp
      show "\<forall>a. length (in_window (window cfg) a past) \<le> limit cfg" by (rule Cons.prems(4))
    qed
    then show ?thesis using e a False by simp
  next
    case True
    have pr: "prune (window cfg) t (h u) = prune (window cfg) t past"
      using Cons.prems(3) prune_prune[OF Lt] by simp
    show ?thesis
    proof (cases "length (prune (window cfg) t past) < limit cfg")
      case room: True
      have a: "allow cfg h v t = (True, h(u := prune (window cfg) t past @ [t]))"
        using True pr room by (simp add: allow_def Let_def)
      have "length (in_window (window cfg) a ((past @ [t]) @ allowed_times cfg (h(u := prune (window cfg) t past @ [t])) evs u)) \<le> limit cfg"
      proof (rule Cons.IH[of t _ "past @ [t]"])
        show "sorted (map snd evs)" by (rule srt)
        show "\<forall>e\<in>set evs. t \<le> snd e" by (rule later)
        show "(h(u := prune (window cfg) t past @ [t])) u = filter (\<lambda>x. t - window cfg \<le> x) (past @ [t])"
          using assms by (simp add: prune_def)
        show "\<forall>a. length (in_window (window cfg) a (past @ [t])) \<le> limit cfg"
          using in_window_snoc_bound[OF Cons.prems(4) room] by blast
      qed
      then show ?thesis using e a True by simp
    next
      case full: False
      have a: "allow cfg h v t = (False, h(u := prune (window cfg) t past))"
        using True pr full by (simp add: allow_def Let_def)
      have "length (in_window (window cfg) a (past @ allowed_times cfg (h(u := prune (window cfg) t past)) evs u)) \<le> limit cfg"
      proof (rule Cons.IH[of t _ past])
        show "sorted (map snd evs)" by (rule srt)
        show "\<forall>e\<in>set evs. t \<le> snd e" by (rule later)
        show "(h(u := prune (window cfg) t past)) u = filter (\<lambda>x. t - window cfg \<le> x) past"
          by (simp add: prune_def)
        show "\<forall>a. length (in_window (window cfg) a past) \<le> limit cfg" by (rule Cons.prems(4))
      qed
      then show ?thesis using e a True by simp
    qed
  qed
qed

lemma allowed_times_bound:
  assumes "0 \<le> window cfg" "sorted (map snd evs)"
  shows "length (in_window (window cfg) a (allowed_times cfg (\<lambda>u. []) evs u)) \<le> limit cfg"
proof (cases evs)
  case Nil
  then show ?thesis by (simp add: in_window_def)
next
  case (Cons e es)
  have "\<forall>e'\<in>set evs. snd e \<le> snd e'" using assms(2) Cons by auto
  then have "length (in_window (window cfg) a ([] @ allowed_times cfg (\<lambda>u. []) evs u)) \<le> limit cfg"
    using allowed_times_window[OF assms(1) assms(2), of "snd e" "\<lambda>u. []" u "[]" a]
    by (simp add: in_window_def)
  then show ?thesis by simp
qed

section \<open>Properties of the message route\<close>

lemma voting_chat: "isVotingGroup (-1002454626909)"
  by (simp add: isVotingGroup_def String_of_def votingGroup_def digits.simps digit_char_def)

lemma other_chat: "\<not> isVotingGroup 42"
  by (simp add: isVotingGroup_def String_of_def votingGroup_def digits.simps digit_char_def)

lemma getSpotify_hits: "getSpotify now r st = (st', es) \<Longrightarrow> hits st' = hits st"
  by (auto simp: getSpotify_def refreshSpotifyToken_def split: if_splits)

lemma uri_search:
  assumes "g \<noteq> []" "list_all word_char g"
  shows "regex_search uri_regex_at (''spotify:track:'' @ g) = Some g"
proof -
  have "strip_prefix ''spotify:track:'' (''spotify:track:'' @ g) = Some g"
    by (rule strip_prefix_append)
  then have "uri_regex_at (''spotify:track:'' @ g) = Some g"
    using word_group_whole[OF assms] by (simp only: uri_regex_at_def option.simps)
  then show ?thesis by simp
qed

lemma resolveTrack_parsed:
  assumes "spotifyUrlToUri v = Some u"
  shows "\<exists>g. resolveTrack now u lookup st =
           (fst (getSpotify now True st),
            snd (getSpotify now True st) @ [GetTrack g (api_accessToken (fst (getSpotify now True st)))],
            (case lookup of Fulfilled t \<Rightarrow> Inr (Some t) | Rejected err \<Rightarrow> Inl err))"
proof -
  obtain g where g: "u = ''spotify:track:'' @ g" "g \<noteq> []" "list_all word_char g"
    using spotifyUrlToUri_shape[OF assms] by blast
  have "regex_search uri_regex_at u = Some g" using g uri_search by simp
  then show ?thesis by (simp add: resolveTrack_def split: prod.splits)
qed

lemma message_handler_lookup:
  assumes "\<not> isVotingGroup (msg_chat_id ctx)" "spotifyUrlToUri (msg_text ctx) = Some u"
    and "message_handler now ctx lookup st = (st', es, out)"
  shows "(\<exists>e\<in>set es. is_GetTrack e) \<and> hits st' = hits st"
proof -
  obtain g where r: "resolveTrack now u lookup st =
           (fst (getSpotify now True st),
            snd (getSpotify now True st) @ [GetTrack g (api_accessToken (fst (getSpotify now True st)))],
            (case lookup of Fulfilled t \<Rightarrow> Inr (Some t) | Rejected err \<Rightarrow> Inl err))"
    using resolveTrack_parsed[OF assms(2)] by blast
  have h: "hits (fst (getSpotify now True st)) = hits st"
    using getSpotify_hits[of now True st] by (cases "getSpotify now True st") simp
  show ?thesis
    using assms r h
    by (cases lookup) (auto simp: message_handler_def Let_def)
qed

lemma on_message_step:
  assumes ts: "hits st (uid (msg_from ctx)) = ts" "\<forall>t\<in>set ts. now - 5 * 60 * 1000 \<le> t"
    and ctx: "\<not> isVotingGroup (msg_chat_id ctx)" "spotifyUrlToUri (msg_text ctx) \<noteq> None"
  shows "length ts < 3 \<Longrightarrow>
           \<exists>st' es out. on_message now ctx lookup st = (st', es, out) \<and>
             (\<exists>e\<in>set es. is_GetTrack e) \<and> hits st' (uid (msg_from ctx)) = ts @ [now]"
    and "\<not> length ts < 3 \<Longrightarrow>
           on_message now ctx lookup st =
             (st\<lparr>hits := (hits st)(uid (msg_from ctx) := ts)\<rparr>,
              [Reply (''Limit '' @ uuml @ ''berschritten, bitte warten!'')], Completed)"
proof -
  have pr: "prune (window trackLimitConfig) now (hits st (uid (msg_from ctx))) = ts"
    using ts by (simp add: prune_def trackLimitConfig_def)
  {
    assume room: "length ts < 3"
    let ?h = "(hits st)(uid (msg_from ctx) := ts @ [now])"
    have a: "allow trackLimitConfig (hits st) (uid (msg_from ctx)) now = (True, ?h)"
      using pr room by (simp add: allow_def Let_def trackLimitConfig_def)
    obtain st' es out where m: "message_handler now ctx lookup (st\<lparr>hits := ?h\<rparr>) = (st', es, out)"
      by (cases "message_handler now ctx lookup (st\<lparr>hits := ?h\<rparr>)")
    obtain u where u: "spotifyUrlToUri (msg_text ctx) = Some u" using ctx(2) by blast
    have "(\<exists>e\<in>set es. is_GetTrack e) \<and> hits st' = hits (st\<lparr>hits := ?h\<rparr>)"
      using message_handler_lookup[OF ctx(1) u m] .
    then have "(\<exists>e\<in>set es. is_GetTrack e) \<and> hits st' (uid (msg_from ctx)) = ts @ [now]"
      by simp
    moreover have "on_message now ctx lookup st = (st', es, out)"
      using a m by (simp add: on_message_def)
    ultimately show "\<exists>st' es out. on_message now ctx lookup st = (st', es, out) \<and>
             (\<exists>e\<in>set es. is_GetTrack e) \<and> hits st' (uid (msg_from ctx)) = ts @ [now]"
      by blast
  }
  {
    assume full: "\<not> length ts < 3"
    have "allow trackLimitConfig (hits st) (uid (msg_from ctx)) now
            = (False, (hits st)(uid (msg_from ctx) := ts))"
      using pr full by (simp add: allow_def Let_def trackLimitConfig_def)
    then show "on_message now ctx lookup st =
             (st\<lparr>hits := (hits st)(uid (msg_from ctx) := ts)\<rparr>,
              [Reply (''Limit '' @ uuml @ ''berschritten, bitte warten!'')], Completed)"
      by (simp add: on_message_def trackLimitConfig_def)
  }
qed

lemma four_messages:
  assumes fresh: "hits st0 (uid sender) = []"
    and times: "t1 \<le> t2" "t2 \<le> t3" "t3 \<le> t4" "t4 \<le> t1 + 5 * 60 * 1000"
    and msgs: "\<forall>c\<in>set [c1, c2, c3, c4]. msg_from c = sender \<and> \<not> isVotingGroup (msg_chat_id c)
                 \<and> spotifyUrlToUri (msg_text c) \<noteq> None"
  shows "\<exists>s1 s2 s3 s4 es1 es2 es3 o1 o2 o3.
           on_message t1 c1 l1 st0 = (s1, es1, o1) \<and> on_message t2 c2 l2 s1 = (s2, es2, o2)
           \<and> on_message t3 c3 l3 s2 = (s3, es3, o3)
           \<and> on_message t4 c4 l4 s3 =
               (s4, [Reply (''Limit '' @ uuml @ ''berschritten, bitte warten!'')], Completed)
           \<and> (\<exists>e\<in>set es1. is_GetTrack e) \<and> (\<exists>e\<in>set es2. is_GetTrack e)
           \<and> (\<exists>e\<in>set es3. is_GetTrack e)"
proof -
  have c1: "msg_from c1 = sender" "\<not> isVotingGroup (msg_chat_id c1)" "spotifyUrlToUri (msg_text c1) \<noteq> None"
    and c2: "msg_from c2 = sender" "\<not> isVotingGroup (msg_chat_id c2)" "spotifyUrlToUri (msg_text c2) \<noteq> None"
    and c3: "msg_from c3 = sender" "\<not> isVotingGroup (msg_chat_id c3)" "spotifyUrlToUri (msg_text c3) \<noteq> None"
    and c4: "msg_from c4 = sender" "\<not> isVotingGroup (msg_chat_id c4)" "spotifyUrlToUri (msg_text c4) \<noteq> None"
    using msgs by simp_all
  obtain s1 es1 o1 where m1: "on_message t1 c1 l1 st0 = (s1, es1, o1)"
      "\<exists>e\<in>set es1. is_GetTrack e" "hits s1 (uid (msg_from c1)) = [] @ [t1]"
    using on_message_step(1)[of st0 c1 "[]" t1 l1] fresh c1 by auto
  have h1: "hits s1 (uid (msg_from c2)) = [t1]" using m1(3) c1 c2 by simp
  obtain s2 es2 o2 where m2: "on_message t2 c2 l2 s1 = (s2, es2, o2)"
      "\<exists>e\<in>set es2. is_GetTrack e" "hits s2 (uid (msg_from c2)) = [t1] @ [t2]"
    using on_message_step(1)[of s1 c2 "[t1]" t2 l2] h1 c2 times by auto
  have h2: "hits s2 (uid (msg_from c3)) = [t1, t2]" using m2(3) c2 c3 by simp
  obtain s3 es3 o3 where m3: "on_message t3 c3 l3 s2 = (s3, es3, o3)"
      "\<exists>e\<in>set es3. is_GetTrack e" "hits s3 (uid (msg_from c3)) = [t1, t2] @ [t3]"
    using on_message_step(1)[of s2 c3 "[t1, t2]" t3 l3] h2 c3 times by auto
  have h3: "hits s3 (uid (msg_from c4)) = [t1, t2, t3]" using m3(3) c3 c4 by simp
  have m4: "on_message t4 c4 l4 s3 =
             (s3\<lparr>hits := (hits s3)(uid (msg_from c4) := [t1, t2, t3])\<rparr>,
              [Reply (''Limit '' @ uuml @ ''berschritten, bitte warten!'')], Completed)"
    using on_message_step(2)[of s3 c4 "[t1, t2, t3]" t4 l4] h3 c4 times by auto
  show ?thesis using m1(1,2) m2(1,2) m3(1,2) m4 by blast
qed

lemma update_message_admitted:
  "allow dflt a (uid (msg_from ctx)) now = (True, a') \<Longrightarrow>
   on_message now ctx lookup st = (st', es, out) \<Longrightarrow>
   update_message dflt now ctx lookup a st = (a', st', es, out)"
  by (simp add: update_message_def)

lemma update_message_denied:
  "allow dflt a (uid (msg_from ctx)) now = (False, a') \<Longrightarrow>
   update_message dflt now ctx lookup a st = (a', st, onLimitExceeded dflt, Completed)"
  by (simp add: update_message_def)

lemma four_admitted_messages:
  assumes fresh: "hits st0 (uid sender) = []"
    and times: "t1 \<le> t2" "t2 \<le> t3" "t3 \<le> t4" "t4 \<le> t1 + 5 * 60 * 1000"
    and msgs: "\<forall>c\<in>set [c1, c2, c3, c4]. msg_from c = sender \<and> \<not> isVotingGroup (msg_chat_id c)
                 \<and> spotifyUrlToUri (msg_text c) \<noteq> None"
    and adm: "allow dflt a0 (uid sender) t1 = (True, a1)" "allow dflt a1 (uid sender) t2 = (True, a2)"
      "allow dflt a2 (uid sender) t3 = (True, a3)" "allow dflt a3 (uid sender) t4 = (True, a4)"
  shows "\<exists>r1 r2 r3.
           run_messages dflt a0 st0 [(t1, c1, l1), (t2, c2, l2), (t3, c3, l3), (t4, c4, l4)]
             = [r1, r2, r3, ([Reply (''Limit '' @ uuml @ ''berschritten, bitte warten!'')], Completed)]
           \<and> (\<forall>r\<in>set [r1, r2, r3]. \<exists>e\<in>set (fst r). is_GetTrack e)"
proof -
  obtain s1 s2 s3 s4 es1 es2 es3 o1 o2 o3 where
    m: "on_message t1 c1 l1 st0 = (s1, es1, o1)" "on_message t2 c2 l2 s1 = (s2, es2, o2)"
       "on_message t3 c3 l3 s2 = (s3, es3, o3)"
       "on_message t4 c4 l4 s3 =
          (s4, [Reply (''Limit '' @ uuml @ ''berschritten, bitte warten!'')], Completed)"
    and g: "\<exists>e\<in>set es1. is_GetTrack e" "\<exists>e\<in>set es2. is_GetTrack e" "\<exists>e\<in>set es3. is_GetTrack e"
    using four_messages[OF fresh times msgs, of l1 l2 l3 l4] by blast
  have f: "msg_from c1 = sender" "msg_from c2 = sender" "msg_from c3 = sender" "msg_from c4 = sender"
    using msgs by simp_all
  have u1: "update_message dflt t1 c1 l1 a0 st0 = (a1, s1, es1, o1)"
    using update_message_admitted[of dflt a0 c1 t1 a1 l1 st0 s1 es1 o1] adm(1) m(1) f(1) by simp
  have u2: "update_message dflt t2 c2 l2 a1 s1 = (a2, s2, es2, o2)"
    using update_message_admitted[of dflt a1 c2 t2 a2 l2 s1 s2 es2 o2] adm(2) m(2) f(2) by simp
  have u3: "update_message dflt t3 c3 l3 a2 s2 = (a3, s3, es3, o3)"
    using update_message_admitted[of dflt a2 c3 t3 a3 l3 s2 s3 es3 o3] adm(3) m(3) f(3) by simp
  have u4: "update_message dflt t4 c4 l4 a3 s3 =
              (a4, s4, [Reply (''Limit '' @ uuml @ ''berschritten, bitte warten!'')], Completed)"
    using update_message_admitted[of dflt a3 c4 t4 a4 l4 s3 s4] adm(4) m(4) f(4) by simp
  have "run_messages dflt a0 st0 [(t1, c1, l1), (t2, c2, l2), (t3, c3, l3), (t4, c4, l4)]
          = [(es1, o1), (es2, o2), (es3, o3),
             ([Reply (''Limit '' @ uuml @ ''berschritten, bitte warten!'')], Completed)]"
    using u1 u2 u3 u4 by simp
  then show ?thesis using g by auto
qed

text \<open>
  Claim C3, as amended. The limiter of the message route runs with a window of 5 minutes
  and a limit of 3. Over every sequence of calls in the order of their times, the calls it
  allows to one user within any window of 5 minutes are at most 3. A denied call leaves
  the user's window as pruned, without the new time, and the route answers it with the
  wait reply and nothing else. When one user, with nothing recorded yet, sends 4 links
  within 5 minutes outside the voting group, and the application-wide limiter admits each
  of them, the first 3 reach the track lookup and the 4th gets the wait reply. A message
  that the application-wide limiter denies reaches neither the limiter of the route nor
  the lookup.
\<close>

theorem track_rate_limit:
  "window trackLimitConfig = 5 * 60 * 1000 \<and> limit trackLimitConfig = 3
   \<and> (sorted (map snd evs) \<longrightarrow>
        length (in_window (window trackLimitConfig) a
                  (allowed_times trackLimitConfig (\<lambda>u. []) evs u)) \<le> 3)
   \<and> (allow trackLimitConfig (hits st) (uid (msg_from ctx)) now = (False, h) \<longrightarrow>
        h = (hits st)(uid (msg_from ctx) :=
                        prune (window trackLimitConfig) now (hits st (uid (msg_from ctx))))
        \<and> on_message now ctx lookup st =
            (st\<lparr>hits := h\<rparr>,
             [Reply (''Limit '' @ uuml @ ''berschritten, bitte warten!'')], Completed))
   \<and> (hits st0 (uid sender) = [] \<and> t1 \<le> t2 \<and> t2 \<le> t3 \<and> t3 \<le> t4 \<and> t4 \<le> t1 + 5 * 60 * 1000
        \<and> (\<forall>c\<in>set [c1, c2, c3, c4]. msg_from c = sender \<and> \<not> isVotingGroup (msg_chat_id c)
                \<and> spotifyUrlToUri (msg_text c) \<noteq> None)
        \<and> allow dflt a0 (uid sender) t1 = (True, a1) \<and> allow dflt a1 (uid sender) t2 = (True, a2)
        \<and> allow dflt a2 (uid sender) t3 = (True, a3) \<and> allow dflt a3 (uid sender) t4 = (True, a4)
      \<longrightarrow> (\<exists>r1 r2 r3.
             run_messages dflt a0 st0 [(t1, c1, l1), (t2, c2, l2), (t3, c3, l3), (t4, c4, l4)]
               = [r1, r2, r3,
                  ([Reply (''Limit '' @ uuml @ ''berschritten, bitte warten!'')], Completed)]
             \<and> (\<forall>r\<in>set [r1, r2, r3]. \<exists>e\<in>set (fst r). is_GetTrack e)))
   \<and> (allow dflt a0 (uid (msg_from ctx)) now = (False, a1) \<longrightarrow>
        update_message dflt now ctx lookup a0 st = (a1, st, onLimitExceeded dflt, Completed))"
proof (intro conjI impI)
  show "window trackLimitConfig = 5 * 60 * 1000" by (simp add: trackLimitConfig_def)
  show "limit trackLimitConfig = 3" by (simp add: trackLimitConfig_def)
next
  assume "sorted (map snd evs)"
  moreover have "0 \<le> window trackLimitConfig" by (simp add: trackLimitConfig_def)
  ultimately have "length (in_window (window trackLimitConfig) a
                  (allowed_times trackLimitConfig (\<lambda>u. []) evs u)) \<le> limit trackLimitConfig"
    using allowed_times_bound by blast
  then show "length (in_window (window trackLimitConfig) a
                  (allowed_times trackLimitConfig (\<lambda>u. []) evs u)) \<le> 3"
    by (simp add: trackLimitConfig_def)
next
  assume d: "allow trackLimitConfig (hits st) (uid (msg_from ctx)) now = (False, h)"
  then show "h = (hits st)(uid (msg_from ctx) :=
                        prune (window trackLimitConfig) now (hits st (uid (msg_from ctx))))"
    by (auto simp: allow_def Let_def split: if_splits)
  show "on_message now ctx lookup st =
            (st\<lparr>hits := h\<rparr>,
             [Reply (''Limit '' @ uuml @ ''berschritten, bitte warten!'')], Completed)"
    using d by (simp add: on_message_def trackLimitConfig_def)
next
  assume "hits st0 (uid sender) = [] \<and> t1 \<le> t2 \<and> t2 \<le> t3 \<and> t3 \<le> t4 \<and> t4 \<le> t1 + 5 * 60 * 1000
        \<and> (\<forall>c\<in>set [c1, c2, c3, c4]. msg_from c = sender \<and> \<not> isVotingGroup (msg_chat_id c)
                \<and> spotifyUrlToUri (msg_text c) \<noteq> None)
        \<and> allow dflt a0 (uid sender) t1 = (True, a1) \<and> allow dflt a1 (uid sender) t2 = (True, a2)
        \<and> allow dflt a2 (uid sender) t3 = (True, a3) \<and> allow dflt a3 (uid sender) t4 = (True, a4)"
  then show "\<exists>r1 r2 r3.
             run_messages dflt a0 st0 [(t1, c1, l1), (t2, c2, l2), (t3, c3, l3), (t4, c4, l4)]
               = [r1, r2, r3,
                  ([Reply (''Limit '' @ uuml @ ''berschritten, bitte warten!'')], Completed)]
             \<and> (\<forall>r\<in>set [r1, r2, r3]. \<exists>e\<in>set (fst r). is_GetTrack e)"
    using four_admitted_messages[of st0 sender t1 t2 t3 t4 c1 c2 c3 c4 dflt a0 a1 a2 a3 a4 l1 l2 l3 l4]
    by blast
next
  assume "allow dflt a0 (uid (msg_from ctx)) now = (False, a1)"
  then show "update_message dflt now ctx lookup a0 st = (a1, st, onLimitExceeded dflt, Completed)"
    by (rule update_message_denied)
qed

lemma link_parses: "spotifyUrlToUri (msg_text (link_message c)) = Some ''spotify:track:abc''"
  by (simp add: link_message_def track_regex_at_def track_tail_def word_group_def word_char_def)

lemma one_per_second_spaced:
  "allow one_per_second ((\<lambda>u. [])(userId := [t])) userId (t + 2000)
     = (True, (\<lambda>u. [])(userId := [t + 2000]))"
  by (simp add: allow_def prune_def one_per_second_def)

lemma one_per_second_first:
  "allow one_per_second (\<lambda>u. []) userId now = (True, (\<lambda>u. [])(userId := [now]))"
  by (simp add: allow_def prune_def one_per_second_def)

theorem track_rate_limit_witness:
  "length (in_window (window trackLimitConfig) 0
             (allowed_times trackLimitConfig (\<lambda>u. []) [(7, 0), (7, 1), (8, 1), (7, 2), (7, 3)] 7)) \<le> 3
   \<and> on_message 3 (link_message 42) (Fulfilled some_track)
         (fresh_state\<lparr>hits := (\<lambda>u. [])(7 := [0, 1, 2])\<rparr>)
       = (fresh_state\<lparr>hits := (\<lambda>u. [])(7 := [0, 1, 2])\<rparr>,
          [Reply (''Limit '' @ uuml @ ''berschritten, bitte warten!'')], Completed)
   \<and> (\<exists>r1 r2 r3.
         run_messages one_per_second (\<lambda>u. []) fresh_state
           [(0, link_message 42, Fulfilled some_track), (2000, link_message 42, Fulfilled some_track),
            (4000, link_message 42, Rejected ''404''), (6000, link_message 42, Fulfilled some_track)]
           = [r1, r2, r3,
              ([Reply (''Limit '' @ uuml @ ''berschritten, bitte warten!'')], Completed)]
         \<and> (\<forall>r\<in>set [r1, r2, r3]. \<exists>e\<in>set (fst r). is_GetTrack e))
   \<and> update_message one_per_second 1 (link_message 42) (Fulfilled some_track)
         ((\<lambda>u. [])(7 := [0])) fresh_state
       = ((\<lambda>u. [])(7 := [0]), fresh_state, [], Completed)"
proof -
  let ?st = "fresh_state\<lparr>hits := (\<lambda>u. [])(7 := [0, 1, 2])\<rparr>"
  have s: "sorted (map snd [(7, 0), (7, 1), (8, 1), (7, 2), (7::int, 3::int)])" by simp
  have d: "allow trackLimitConfig (hits ?st) (uid (msg_from (link_message 42))) 3
             = (False, (\<lambda>u. [])(7 := [0, 1, 2]))"
    by (simp add: allow_def prune_def trackLimitConfig_def link_message_def ann_def)
  have f: "hits fresh_state (uid ann) = []"
    by (simp add: fresh_state_def startup_def)
  have c: "\<forall>c\<in>set [link_message 42, link_message 42, link_message 42, link_message 42].
             msg_from c = ann \<and> \<not> isVotingGroup (msg_chat_id c) \<and> spotifyUrlToUri (msg_text c) \<noteq> None"
    using other_chat link_parses by (simp add: link_message_def)
  have a1: "allow one_per_second (\<lambda>u. []) (uid ann) 0 = (True, (\<lambda>u. [])(7 := [0]))"
    using one_per_second_first[of 7 0] by (simp add: ann_def)
  have a2: "allow one_per_second ((\<lambda>u. [])(7 := [0])) (uid ann) 2000 = (True, (\<lambda>u. [])(7 := [2000]))"
    using one_per_second_spaced[of 7 0] by (simp add: ann_def)
  have a3: "allow one_per_second ((\<lambda>u. [])(7 := [2000])) (uid ann) 4000 = (True, (\<lambda>u. [])(7 := [4000]))"
    using one_per_second_spaced[of 7 2000] by (simp add: ann_def)
  have a4: "allow one_per_second ((\<lambda>u. [])(7 := [4000])) (uid ann) 6000 = (True, (\<lambda>u. [])(7 := [6000]))"
    using one_per_second_spaced[of 7 4000] by (simp add: ann_def)
  have x: "allow one_per_second ((\<lambda>u. [])(7 := [0])) (uid (msg_from (link_message 42))) 1
             = (False, (\<lambda>u. [])(7 := [0]))"
    by (simp add: allow_def prune_def one_per_second_def link_message_def ann_def)
  note T = track_rate_limit[where evs = "[(7, 0), (7, 1), (8, 1), (7, 2), (7, 3)]" and a = 0 and u = 7
        and st = ?st and ctx = "link_message 42" and now = 3 and h = "(\<lambda>u. [])(7 := [0, 1, 2])"
        and lookup = "Fulfilled some_track"
        and ?st0.0 = fresh_state and sender = ann and ?t1.0 = 0 and ?t2.0 = 2000 and ?t3.0 = 4000
        and ?t4.0 = 6000 and ?c1.0 = "link_message 42" and ?c2.0 = "link_message 42"
        and ?c3.0 = "link_message 42" and ?c4.0 = "link_message 42"
        and ?l1.0 = "Fulfilled some_track" and ?l2.0 = "Fulfilled some_track"
        and ?l3.0 = "Rejected ''404''" and ?l4.0 = "Fulfilled some_track"
        and dflt = one_per_second and ?a0.0 = "\<lambda>u. []" and ?a1.0 = "(\<lambda>u. [])(7 := [0])"
        and ?a2.0 = "(\<lambda>u. [])(7 := [2000])" and ?a3.0 = "(\<lambda>u. [])(7 := [4000])"
        and ?a4.0 = "(\<lambda>u. [])(7 := [6000])"]
  note U = track_rate_limit[where ctx = "link_message 42" and now = 1 and st = fresh_state
        and lookup = "Fulfilled some_track" and dflt = one_per_second
        and ?a0.0 = "(\<lambda>u. [])(7 := [0])" and ?a1.0 = "(\<lambda>u. [])(7 := [0])"]
  have p1: "length (in_window (window trackLimitConfig) 0
             (allowed_times trackLimitConfig (\<lambda>u. []) [(7, 0), (7, 1), (8, 1), (7, 2), (7, 3)] 7)) \<le> 3"
    using T[THEN conjunct2, THEN conjunct2, THEN conjunct1] s by blast
  have p2: "on_message 3 (link_message 42) (Fulfilled some_track) ?st
       = (?st, [Reply (''Limit '' @ uuml @ ''berschritten, bitte warten!'')], Completed)"
    using T[THEN conjunct2, THEN conjunct2, THEN conjunct2, THEN conjunct1] d by simp
  have p3: "\<exists>r1 r2 r3.
         run_messages one_per_second (\<lambda>u. []) fresh_state
           [(0, link_message 42, Fulfilled some_track), (2000, link_message 42, Fulfilled some_track),
            (4000, link_message 42, Rejected ''404''), (6000, link_message 42, Fulfilled some_track)]
           = [r1, r2, r3,
              ([Reply (''Limit '' @ uuml @ ''berschritten, bitte warten!'')], Completed)]
         \<and> (\<forall>r\<in>set [r1, r2, r3]. \<exists>e\<in>set (fst r). is_GetTrack e)"
  proof (rule T[THEN conjunct2, THEN conjunct2, THEN conjunct2, THEN conjunct2, THEN conjunct1, THEN mp])
    show "hits fresh_state (uid ann) = [] \<and> (0::int) \<le> 2000 \<and> (2000::int) \<le> 4000
        \<and> (4000::int) \<le> 6000 \<and> (6000::int) \<le> 0 + 5 * 60 * 1000
        \<and> (\<forall>c\<in>set [link_message 42, link_message 42, link_message 42, link_message 42].
             msg_from c = ann \<and> \<not> isVotingGroup (msg_chat_id c) \<and> spotifyUrlToUri (msg_text c) \<noteq> None)
        \<and> allow one_per_second (\<lambda>u. []) (uid ann) 0 = (True, (\<lambda>u. [])(7 := [0]))
        \<and> allow one_per_second ((\<lambda>u. [])(7 := [0])) (uid ann) 2000 = (True, (\<lambda>u. [])(7 := [2000]))
        \<and> allow one_per_second ((\<lambda>u. [])(7 := [2000])) (uid ann) 4000 = (True, (\<lambda>u. [])(7 := [4000]))
        \<and> allow one_per_second ((\<lambda>u. [])(7 := [4000])) (uid ann) 6000 = (True, (\<lambda>u. [])(7 := [6000]))"
      using f c a1 a2 a3 a4 by simp
  qed
  have p4: "update_message one_per_second 1 (link_message 42) (Fulfilled some_track)
         ((\<lambda>u. [])(7 := [0])) fresh_state
       = ((\<lambda>u. [])(7 := [0]), fresh_state, [], Completed)"
    using U[THEN conjunct2, THEN conjunct2, THEN conjunct2, THEN conjunct2, THEN conjunct2] x
    by (simp add: one_per_second_def)
  show ?thesis using p1 p2 p3 p4 by blast
qed

text \<open>
  Claim C3 as stated fails: with the application-wide limiter at one update per second and
  user, of four links that one user sends within three milliseconds only the first
  reaches the lookup; the other three are dropped before the route, and the fourth gets
  no reply.
\<close>

theorem quick_links_counterexample:
  "run_messages one_per_second (\<lambda>u. []) ready_state
     [(0, link_message 42, Fulfilled some_track), (1, link_message 42, Fulfilled some_track),
      (2, link_message 42, Fulfilled some_track), (3, link_message 42, Fulfilled some_track)]
   = [([GetTrack ''abc'' (Some ''access-1''),
        vote_message ''spotify:track:abc'' some_track ann,
        Reply ''Song von A, B wurde angefragt.''], Completed),
      ([], Completed), ([], Completed), ([], Completed)]"
proof -
  have m: "on_message 0 (link_message 42) (Fulfilled some_track) ready_state
     = (ready_state\<lparr>hits := (\<lambda>u. [])(7 := [0])\<rparr>,
        [GetTrack ''abc'' (Some ''access-1''),
         vote_message ''spotify:track:abc'' some_track ann,
         Reply ''Song von A, B wurde angefragt.''], Completed)"
    by (simp add: on_message_def allow_def prune_def trackLimitConfig_def message_handler_def
        link_message_def ann_def other_chat track_regex_at_def track_tail_def word_group_def
        word_char_def resolveTrack_def uri_regex_at_def ready_state_def fresh_state_def
        startup_def refresh_fulfilled_def refreshSpotifyToken_def getSpotify_def
        formatTrackInfo_def some_track_def)
  have u: "uid (msg_from (link_message 42)) = 7" by (simp add: link_message_def ann_def)
  show ?thesis
    using m u
    by (simp add: update_message_def allow_def prune_def one_per_second_def)
qed

text \<open>
  Claim C9. For a text that is null, undefined or empty \<open>spotifyUrlToUri\<close> returns
  \<^verbatim>\<open>undefined\<close>, and the message handler, outside the voting group, completes with the
  format-help reply as its only effect; so does the route when the limiter allows.
\<close>

theorem absent_text_gets_help:
  "spotifyUrlToUri Null = None \<and> spotifyUrlToUri Undefined = None \<and> spotifyUrlToUri (Str []) = None
   \<and> (\<not> isVotingGroup (msg_chat_id ctx)
        \<and> (msg_text ctx = Null \<or> msg_text ctx = Undefined \<or> msg_text ctx = Str [])
      \<longrightarrow> message_handler now ctx lookup st = (st, [Reply help_reply], Completed)
          \<and> (allow trackLimitConfig (hits st) (uid (msg_from ctx)) now = (True, h)
               \<longrightarrow> on_message now ctx lookup st = (st\<lparr>hits := h\<rparr>, [Reply help_reply], Completed)))"
  by (auto simp: message_handler_def on_message_def)

theorem absent_text_gets_help_witness:
  "message_handler 5 photo_message (Rejected ''none'') fresh_state
     = (fresh_state, [Reply help_reply], Completed)
   \<and> on_message 5 photo_message (Rejected ''none'') fresh_state
     = (fresh_state\<lparr>hits := (\<lambda>u. [])(7 := [5])\<rparr>, [Reply help_reply], Completed)"
proof -
  have c: "\<not> isVotingGroup (msg_chat_id photo_message)"
    using other_chat by (simp add: photo_message_def)
  have t: "msg_text photo_message = Undefined" by (simp add: photo_message_def)
  have a: "allow trackLimitConfig (hits fresh_state) (uid (msg_from photo_message)) 5
             = (True, (\<lambda>u. [])(7 := [5]))"
    by (simp add: allow_def prune_def trackLimitConfig_def photo_message_def ann_def
        fresh_state_def startup_def)
  show ?thesis
    using absent_text_gets_help[of photo_message 5 "Rejected ''none''" fresh_state
        "(\<lambda>u. [])(7 := [5])"] c t a
    by simp
qed

text \<open>
  Claim C10. For every URI \<open>u\<close> that \<open>spotifyUrlToUri\<close> returns, the callback data
  \<^verbatim>\<open>accept:\<close> followed by \<open>u\<close> matches the pattern of the approve action and the
  captured group is \<open>u\<close>; of the two callback buttons of the vote message for \<open>u\<close> the
  first carries this data and the second, \<^verbatim>\<open>decline\<close>, is not matched by the pattern.
\<close>

theorem accept_round_trip:
  "spotifyUrlToUri v = Some u \<Longrightarrow>
     accept_regex (accept_callback_data u) = Some u
     \<and> map accept_regex (callback_data_of (vote_message u t sender)) = [Some u, None]"
proof -
  assume "spotifyUrlToUri v = Some u"
  then obtain g where g: "u = ''spotify:track:'' @ g" "g \<noteq> []" "list_all word_char g"
    using spotifyUrlToUri_shape by blast
  have a: "accept_regex (accept_callback_data u) = Some u"
    using accept_regex_uri[OF g(2) g(3)] g(1) by simp
  have d: "accept_regex ''decline'' = None" by (simp add: accept_regex_def)
  have "callback_data_of (vote_message u t sender) = [accept_callback_data u, ''decline'']"
    by (simp add: vote_message_def Let_def)
  then show ?thesis using a d by simp
qed

theorem accept_round_trip_witness:
  "accept_regex (accept_callback_data ''spotify:track:abc'') = Some ''spotify:track:abc''
   \<and> map accept_regex (callback_data_of (vote_message ''spotify:track:abc'' some_track ann))
       = [Some ''spotify:track:abc'', None]"
  using accept_round_trip[OF link_parses[of 42], of some_track ann] by simp

section \<open>Properties of the vote actions\<close>

lemma getSpotify_no_queue: "getSpotify now r st = (st', es) \<Longrightarrow> filter is_AddToQueue es = []"
  by (auto simp: getSpotify_def refreshSpotifyToken_def split: if_splits)

lemma resolveTrack_no_queue:
  "resolveTrack now uri lookup st = (st', es, r) \<Longrightarrow> filter is_AddToQueue es = []"
  by (auto simp: resolveTrack_def split: option.splits prod.splits dest: getSpotify_no_queue)

lemma accept_then_no_queue:
  "accept_then now ctx uri lookup st = (st', es, out) \<Longrightarrow> filter is_AddToQueue es = []"
  by (auto simp: accept_then_def Let_def deleteMessageAfterAcceptDecline_def
      split: prod.splits sum.splits dest: resolveTrack_no_queue)

lemma addToSpotifyQueue_one:
  "addToSpotifyQueue now uri st = (st', es) \<Longrightarrow> \<exists>tok. filter is_AddToQueue es = [AddToQueue uri tok]"
  by (auto simp: addToSpotifyQueue_def split: prod.splits dest: getSpotify_no_queue)

lemma accept_action_one:
  assumes "accept_action now now' ctx uri queued lookup st = (st', es, out)"
  shows "\<exists>tok. filter is_AddToQueue es = [AddToQueue uri tok]"
proof -
  obtain st1 es1 where q: "addToSpotifyQueue now uri st = (st1, es1)"
    by (cases "addToSpotifyQueue now uri st")
  then obtain tok where t: "filter is_AddToQueue es1 = [AddToQueue uri tok]"
    using addToSpotifyQueue_one by blast
  show ?thesis
  proof (cases queued)
    case (Rejected err)
    then have "es = es1" using assms q by (simp add: accept_action_def)
    then show ?thesis using t by blast
  next
    case (Fulfilled x)
    obtain st2 es2 out2 where a: "accept_then now' ctx uri lookup st1 = (st2, es2, out2)"
      by (cases "accept_then now' ctx uri lookup st1")
    then have "es = es1 @ es2" using assms q Fulfilled by (simp add: accept_action_def)
    then show ?thesis using t accept_then_no_queue[OF a] by simp
  qed
qed

lemma on_callback_query_queue:
  assumes "on_callback_query ev st = (st', es, out)"
  shows "length (filter is_AddToQueue es) = (if accept_regex (cb_data (vote_ctx ev)) \<noteq> None then 1 else 0)"
proof (cases "accept_regex (cb_data (vote_ctx ev))")
  case None
  then have "filter is_AddToQueue es = []"
    using assms
    by (auto simp: on_callback_query_def decline_action_def deleteMessageAfterAcceptDecline_def
        split: if_splits)
  then show ?thesis using None by simp
next
  case (Some uri)
  then have "accept_action (vote_now ev) (vote_now' ev) (vote_ctx ev) uri
            (vote_queued ev) (vote_lookup ev) st = (st', es, out)"
    using assms by (simp add: on_callback_query_def)
  then obtain tok where "filter is_AddToQueue es = [AddToQueue uri tok]"
    using accept_action_one by blast
  then show ?thesis using Some by simp
qed

lemma run_votes_queue:
  assumes quiet: "filter is_AddToQueue (onLimitExceeded dflt) = []"
  shows "length (filter is_AddToQueue (run_votes dflt a st evs))
     = length (filter (\<lambda>ev. accept_regex (cb_data (vote_ctx ev)) \<noteq> None) (admitted_taps dflt a evs))"
proof (induction evs arbitrary: a st)
  case Nil
  then show ?case by simp
next
  case (Cons ev evs)
  obtain ok a' where g: "allow dflt a (uid (cb_from (vote_ctx ev))) (vote_now ev) = (ok, a')"
    by (cases "allow dflt a (uid (cb_from (vote_ctx ev))) (vote_now ev)")
  show ?case
  proof (cases ok)
    case True
    obtain st' es out where q: "on_callback_query ev st = (st', es, out)"
      by (cases "on_callback_query ev st")
    have u: "update_callback_query dflt ev a st = (a', st', es, out)"
      using g q True by (simp add: update_callback_query_def)
    show ?thesis
      using g True u on_callback_query_queue[OF q] Cons.IH[of a' st'] by simp
  next
    case False
    have u: "update_callback_query dflt ev a st = (a', st, onLimitExceeded dflt, Completed)"
      using g False by (simp add: update_callback_query_def)
    show ?thesis
      using g False u quiet Cons.IH[of a' st] by simp
  qed
qed

lemmas state_eval =
  ready_state_def fresh_state_def startup_def refresh_fulfilled_def refreshSpotifyToken_def
  getSpotify_def

lemma accept_tap_ready:
  "on_callback_query (tap voter ''accept:spotify:track:abc'') ready_state
     = (ready_state,
        [AddToQueue ''spotify:track:abc'' (Some ''access-1''),
         GetTrack ''abc'' (Some ''access-1''),
         Reply (''Lied zur Queue hinzugef'' @ uuml @ ''gt: Song '' @ bullet @ '' A, B''),
         EditMessageText (''Von '' @ formatUser voter @ '' abgelehnt: Anfrage von Ann''),
         EditMessageReplyMarkup],
        Completed)"
  by (simp add: state_eval on_callback_query_def accept_action_def accept_then_def
      addToSpotifyQueue_def resolveTrack_def accept_regex_def uri_regex_at_def word_group_def
      word_char_def deleteMessageAfterAcceptDecline_def formatTrackInfo_def
      tap_def some_track_def)

lemma decline_tap:
  "on_callback_query (tap voter ''decline'') st
     = (st,
        [EditMessageText (''Von '' @ formatUser voter @ '' abgelehnt: Anfrage von Ann''),
         EditMessageReplyMarkup],
        Completed)"
  by (simp add: on_callback_query_def decline_action_def accept_regex_def
      deleteMessageAfterAcceptDecline_def tap_def)

text \<open>
  Claim C1, as amended. The vote actions keep no record of earlier votes. Whatever the
  defaults of the application-wide limiter, as long as its denial makes no queue call:
  over every sequence of button taps the number of \<^verbatim>\<open>addToQueue\<close> calls is the number
  of taps that this limiter admits to the actions and whose callback data matches the
  approve pattern. Each approve tap that reaches the approve action makes exactly one
  call, whatever votes were handled before it. A decline tap that reaches the decline
  action makes no call, leaves the state as it is and edits the message.
\<close>

theorem votes_keep_no_record:
  "(filter is_AddToQueue (onLimitExceeded dflt) = [] \<longrightarrow>
      length (filter is_AddToQueue (run_votes dflt a st evs))
        = length (filter (\<lambda>ev. accept_regex (cb_data (vote_ctx ev)) \<noteq> None)
                    (admitted_taps dflt a evs)))
   \<and> (cb_data (vote_ctx ev) = ''decline'' \<longrightarrow>
        on_callback_query ev st
          = (st,
             [EditMessageText (''Von '' @ formatUser (cb_from (vote_ctx ev)) @ '' abgelehnt: ''
                               @ cb_text (vote_ctx ev)),
              EditMessageReplyMarkup],
             Completed))"
proof (intro conjI impI)
  assume "filter is_AddToQueue (onLimitExceeded dflt) = []"
  then show "length (filter is_AddToQueue (run_votes dflt a st evs))
        = length (filter (\<lambda>ev. accept_regex (cb_data (vote_ctx ev)) \<noteq> None)
                    (admitted_taps dflt a evs))"
    by (rule run_votes_queue)
next
  assume "cb_data (vote_ctx ev) = ''decline''"
  then show "on_callback_query ev st
          = (st,
             [EditMessageText (''Von '' @ formatUser (cb_from (vote_ctx ev)) @ '' abgelehnt: ''
                               @ cb_text (vote_ctx ev)),
              EditMessageReplyMarkup],
             Completed)"
    by (simp add: on_callback_query_def decline_action_def accept_regex_def
        deleteMessageAfterAcceptDecline_def)
qed

lemma accept_data: "accept_regex ''accept:spotify:track:abc'' = Some ''spotify:track:abc''"
  by (simp add: accept_regex_def uri_regex_at_def word_group_def word_char_def)

lemma decline_data: "accept_regex ''decline'' = None"
  by (simp add: accept_regex_def)

theorem votes_keep_no_record_witness:
  "length (filter is_AddToQueue
             (run_votes one_per_second (\<lambda>u. []) ready_state
                [tap ann ''accept:spotify:track:abc'', tap_at 5000 bob ''decline'',
                 tap_at 9000 bob ''accept:spotify:track:abc''])) = 2
   \<and> on_callback_query (tap bob ''decline'') ready_state
       = (ready_state,
          [EditMessageText ''Von Bob abgelehnt: Anfrage von Ann'', EditMessageReplyMarkup],
          Completed)"
proof -
  let ?taps = "[tap ann ''accept:spotify:track:abc'', tap_at 5000 bob ''decline'',
                tap_at 9000 bob ''accept:spotify:track:abc'']"
  note T = votes_keep_no_record[of one_per_second "\<lambda>u. []" ready_state ?taps "tap bob ''decline''"]
  have q: "filter is_AddToQueue (onLimitExceeded one_per_second) = []"
    by (simp add: one_per_second_def)
  have d: "cb_data (vote_ctx (tap bob ''decline'')) = ''decline''" by (simp add: tap_def)
  have adm: "admitted_taps one_per_second (\<lambda>u. []) ?taps = ?taps"
    by (simp add: allow_def prune_def one_per_second_def tap_at_def tap_def ann_def bob_def)
  have n: "length (filter (\<lambda>ev. accept_regex (cb_data (vote_ctx ev)) \<noteq> None) ?taps) = 2"
    using accept_data decline_data by (simp add: tap_at_def tap_def)
  have p1: "length (filter is_AddToQueue (run_votes one_per_second (\<lambda>u. []) ready_state ?taps)) = 2"
    using T[THEN conjunct1, THEN mp, OF q] adm n by simp
  have p2: "on_callback_query (tap bob ''decline'') ready_state
       = (ready_state,
          [EditMessageText ''Von Bob abgelehnt: Anfrage von Ann'', EditMessageReplyMarkup],
          Completed)"
    using T[THEN conjunct2] d by (simp add: tap_def formatUser_def bob_def)
  show ?thesis using p1 p2 by blast
qed

text \<open>
  Claim C1 as stated fails: with the application-wide limiter at one update per second and
  user, two moderators who approve the same message at the same time cause two
  \<^verbatim>\<open>addToQueue\<close> calls, and a decline tap of the second moderator on a message that the
  first has approved edits the message again.
\<close>

theorem repeated_vote_counterexample:
  "cb_message_id (vote_ctx (tap ann ''accept:spotify:track:abc''))
     = cb_message_id (vote_ctx (tap bob ''accept:spotify:track:abc''))
   \<and> cb_message_id (vote_ctx (tap ann ''accept:spotify:track:abc''))
     = cb_message_id (vote_ctx (tap bob ''decline''))
   \<and> filter is_AddToQueue
       (run_votes one_per_second (\<lambda>u. []) ready_state
          [tap ann ''accept:spotify:track:abc'', tap bob ''accept:spotify:track:abc''])
     = [AddToQueue ''spotify:track:abc'' (Some ''access-1''),
        AddToQueue ''spotify:track:abc'' (Some ''access-1'')]
   \<and> filter is_EditMessageText
       (run_votes one_per_second (\<lambda>u. []) ready_state
          [tap ann ''accept:spotify:track:abc'', tap bob ''decline''])
     = [EditMessageText ''Von Ann (@ann1) abgelehnt: Anfrage von Ann'',
        EditMessageText ''Von Bob abgelehnt: Anfrage von Ann'']"
proof -
  have a: "allow one_per_second (\<lambda>u. []) (uid (cb_from (vote_ctx (tap ann d)))) (vote_now (tap ann d))
             = (True, (\<lambda>u. [])(7 := [10]))" for d
    by (simp add: allow_def prune_def one_per_second_def tap_def ann_def)
  have b: "allow one_per_second ((\<lambda>u. [])(7 := [10])) (uid (cb_from (vote_ctx (tap bob d))))
             (vote_now (tap bob d)) = (True, (\<lambda>u. [])(7 := [10], 8 := [10]))" for d
    by (simp add: allow_def prune_def one_per_second_def tap_def bob_def)
  have r1: "run_votes one_per_second (\<lambda>u. []) ready_state
          [tap ann ''accept:spotify:track:abc'', tap bob ''accept:spotify:track:abc'']
        = fst (snd (on_callback_query (tap ann ''accept:spotify:track:abc'') ready_state))
          @ fst (snd (on_callback_query (tap bob ''accept:spotify:track:abc'') ready_state))"
    by (simp add: update_callback_query_def a b accept_tap_ready)
  have r2: "run_votes one_per_second (\<lambda>u. []) ready_state
          [tap ann ''accept:spotify:track:abc'', tap bob ''decline'']
        = fst (snd (on_callback_query (tap ann ''accept:spotify:track:abc'') ready_state))
          @ fst (snd (on_callback_query (tap bob ''decline'') ready_state))"
    by (simp add: update_callback_query_def a b accept_tap_ready decline_tap)
  show ?thesis
    unfolding r1 r2
    by (simp add: accept_tap_ready decline_tap) (simp add: tap_def formatUser_def ann_def bob_def)
qed

text \<open>
  Claim C6. An approve tap whose queue call succeeds makes exactly one \<^verbatim>\<open>addToQueue\<close>
  call with the track URI, but the text it writes into the vote message is the text of
  the decline action, \<^verbatim>\<open>Von <voter> abgelehnt: ...\<close> (declined by the voter), not an
  approval: evaluated for the voter Ann on a bot with a valid token.
\<close>

theorem approve_edits_as_declined:
  "on_callback_query (tap ann ''accept:spotify:track:abc'') ready_state
     = (ready_state,
        [AddToQueue ''spotify:track:abc'' (Some ''access-1''),
         GetTrack ''abc'' (Some ''access-1''),
         Reply (''Lied zur Queue hinzugef'' @ uuml @ ''gt: Song '' @ bullet @ '' A, B''),
         EditMessageText ''Von Ann (@ann1) abgelehnt: Anfrage von Ann'',
         EditMessageReplyMarkup],
        Completed)
   \<and> filter is_EditMessageText
        (fst (snd (on_callback_query (tap ann ''accept:spotify:track:abc'') ready_state)))
     = filter is_EditMessageText (fst (snd (on_callback_query (tap ann ''decline'') ready_state)))"
  by (simp add: accept_tap_ready decline_tap) (simp add: formatUser_def ann_def)

section \<open>Properties of the token state\<close>

lemma admin_id: "isAdmin 117441870"
  by (simp add: isAdmin_def admins_def String_of_def digits.simps digit_char_def)

text \<open>
  Claim C4. On a bot started without stored tokens, an admin completes the
  authorization-code exchange, which puts the access token \<^verbatim>\<open>A\<close> into the API object.
  The callback sets neither \<^verbatim>\<open>spotifyTokenExpires\<close> nor the two globals, so the next
  \<^verbatim>\<open>getSpotify()\<close>, one second later and long before the token expires, starts a refresh
  call and overwrites the token in the API object with the stale global.
\<close>

theorem exchange_then_getSpotify:
  "spotifytoken_command 117441870 (Some ''code'') = [AuthorizationCodeGrant (Some ''code'')]
   \<and> api_accessToken
        (fst (spotifytoken_fulfilled
                \<lparr>access_token = ''A'', refresh_token = ''R'', expires_in = 3600\<rparr> fresh_state))
       = Some ''A''
   \<and> snd (getSpotify 1000 True
             (fst (spotifytoken_fulfilled
                     \<lparr>access_token = ''A'', refresh_token = ''R'', expires_in = 3600\<rparr> fresh_state)))
       = [RefreshAccessToken None]
   \<and> api_accessToken
        (fst (getSpotify 1000 True
                (fst (spotifytoken_fulfilled
                        \<lparr>access_token = ''A'', refresh_token = ''R'', expires_in = 3600\<rparr> fresh_state))))
       = None"
  using admin_id
  by (simp add: spotifytoken_command_def spotifytoken_fulfilled_def state_eval)

text \<open>
  Claim C5, as amended. When the token has expired, \<^verbatim>\<open>getSpotify\<close> starts one
  refresh-token exchange and returns at once, with the store and the expiry time as they
  were; before the expiry it does nothing. \<^verbatim>\<open>refreshSpotifyToken\<close> does the same when
  forced. When the answer of the exchange arrives, the access token in memory and the
  expiry time are replaced; a failed exchange changes nothing. The refresh path never
  writes to the store.
\<close>

theorem refresh_in_memory_only:
  "(spotifyTokenExpires st \<le> now \<longrightarrow>
      snd (getSpotify now True st) = [RefreshAccessToken (spotifyRefreshToken st)]
      \<and> storage (fst (getSpotify now True st)) = storage st
      \<and> spotifyTokenExpires (fst (getSpotify now True st)) = spotifyTokenExpires st)
   \<and> (now < spotifyTokenExpires st \<longrightarrow> getSpotify now True st = (st, []))
   \<and> (spotifyTokenExpires st \<le> now \<or> force \<longrightarrow>
        snd (refreshSpotifyToken now r a force st) = [RefreshAccessToken r]
        \<and> storage (fst (refreshSpotifyToken now r a force st)) = storage st)
   \<and> api_accessToken (refresh_fulfilled t d st) = Some (refreshed_access_token d)
   \<and> spotifyTokenExpires (refresh_fulfilled t d st) = t + int (refreshed_expires_in d) * 1000
   \<and> storage (refresh_fulfilled t d st) = storage st
   \<and> refresh_rejected st = st"
  by (auto simp: getSpotify_def refreshSpotifyToken_def refresh_fulfilled_def refresh_rejected_def)

lemma ready_expires: "spotifyTokenExpires ready_state = 3600000"
  by (simp add: state_eval)

theorem refresh_in_memory_only_witness:
  "snd (getSpotify 3600000 True ready_state) = [RefreshAccessToken (spotifyRefreshToken ready_state)]
   \<and> storage (fst (getSpotify 3600000 True ready_state)) = storage ready_state
   \<and> getSpotify 10 True ready_state = (ready_state, [])
   \<and> snd (refreshSpotifyToken 10 None None True ready_state) = [RefreshAccessToken None]
   \<and> api_accessToken
        (refresh_fulfilled 3600500
           \<lparr>refreshed_access_token = ''access-2'', refreshed_expires_in = 3600\<rparr> ready_state)
       = Some ''access-2''"
proof -
  note A = refresh_in_memory_only[of ready_state 3600000 True None None 3600500
      "\<lparr>refreshed_access_token = ''access-2'', refreshed_expires_in = 3600\<rparr>"]
  note B = refresh_in_memory_only[of ready_state 10 True None None 3600500
      "\<lparr>refreshed_access_token = ''access-2'', refreshed_expires_in = 3600\<rparr>"]
  have p1: "snd (getSpotify 3600000 True ready_state) = [RefreshAccessToken (spotifyRefreshToken ready_state)]
      \<and> storage (fst (getSpotify 3600000 True ready_state)) = storage ready_state"
    using A[THEN conjunct1] ready_expires by simp
  have p2: "getSpotify 10 True ready_state = (ready_state, [])"
    using B[THEN conjunct2, THEN conjunct1] ready_expires by simp
  have p3: "snd (refreshSpotifyToken 10 None None True ready_state) = [RefreshAccessToken None]"
    using B[THEN conjunct2, THEN conjunct2, THEN conjunct1] by simp
  have p4: "api_accessToken
        (refresh_fulfilled 3600500
           \<lparr>refreshed_access_token = ''access-2'', refreshed_expires_in = 3600\<rparr> ready_state)
       = Some ''access-2''"
    using A[THEN conjunct2, THEN conjunct2, THEN conjunct2, THEN conjunct1] by simp
  show ?thesis using p1 p2 p3 p4 by blast
qed

text \<open>
  Claim C5 as stated fails: after an expired token has been refreshed to
  \<^verbatim>\<open>access-2\<close> the store still holds \<^verbatim>\<open>access-0\<close>, and the API object was handed to the
  caller before the answer of the exchange, without the new token.
\<close>

theorem refresh_persists_counterexample:
  "snd (getSpotify 3600000 True ready_state) = [RefreshAccessToken (Some ''refresh-1'')]
   \<and> storage ready_state ''spotify_access_token'' = Some ''access-0''
   \<and> api_accessToken
        (refresh_fulfilled 3600500
           \<lparr>refreshed_access_token = ''access-2'', refreshed_expires_in = 3600\<rparr>
           (fst (getSpotify 3600000 True ready_state)))
       = Some ''access-2''
   \<and> storage
        (refresh_fulfilled 3600500
           \<lparr>refreshed_access_token = ''access-2'', refreshed_expires_in = 3600\<rparr>
           (fst (getSpotify 3600000 True ready_state)))
        ''spotify_access_token''
       = Some ''access-0''
   \<and> api_accessToken (fst (getSpotify 3600000 True ready_state)) \<noteq> Some ''access-2''"
  by (simp add: state_eval)

section \<open>Properties of the message handler: failed lookups and the voting group\<close>

lemma getSpotify_quiet:
  "getSpotify now r st = (st', es) \<Longrightarrow> \<forall>e\<in>set es. \<not> is_SendMessage e \<and> \<not> is_Reply e"
  by (auto simp: getSpotify_def refreshSpotifyToken_def split: if_splits)

lemma message_handler_lookup_failed:
  assumes "\<not> isVotingGroup (msg_chat_id ctx)" "spotifyUrlToUri (msg_text ctx) = Some u"
  shows "\<exists>st' es. message_handler now ctx (Rejected err) st = (st', es, HandlerRejected err)
           \<and> (\<forall>e\<in>set es. \<not> is_SendMessage e \<and> \<not> is_Reply e) \<and> (\<exists>e\<in>set es. is_GetTrack e)"
proof -
  obtain g where r: "resolveTrack now u (Rejected err) st =
           (fst (getSpotify now True st),
            snd (getSpotify now True st) @ [GetTrack g (api_accessToken (fst (getSpotify now True st)))],
            (case Rejected err of Fulfilled t \<Rightarrow> Inr (Some t) | Rejected err \<Rightarrow> Inl err))"
    using resolveTrack_parsed[OF assms(2)] by blast
  have q: "\<forall>e\<in>set (snd (getSpotify now True st)). \<not> is_SendMessage e \<and> \<not> is_Reply e"
    using getSpotify_quiet[of now True st] by (cases "getSpotify now True st") simp
  have "message_handler now ctx (Rejected err) st =
          (fst (getSpotify now True st),
           snd (getSpotify now True st) @ [GetTrack g (api_accessToken (fst (getSpotify now True st)))],
           HandlerRejected err)"
    using assms r by (simp add: message_handler_def)
  then show ?thesis using q by auto
qed

text \<open>
  Claim C7, as amended. When the lookup of a matched link fails, outside the voting
  group, the lookup has been attempted, no vote message is posted and no reply is sent to
  the requester; the promise of the handler is rejected with the error of the lookup, in
  the handler alone and in the route when the limiter allows.
\<close>

theorem lookup_failure_leaves_handler:
  "\<not> isVotingGroup (msg_chat_id ctx) \<and> spotifyUrlToUri (msg_text ctx) = Some u \<longrightarrow>
     (\<exists>st' es. message_handler now ctx (Rejected err) st = (st', es, HandlerRejected err)
         \<and> (\<forall>e\<in>set es. \<not> is_SendMessage e \<and> \<not> is_Reply e) \<and> (\<exists>e\<in>set es. is_GetTrack e))
     \<and> (allow trackLimitConfig (hits st) (uid (msg_from ctx)) now = (True, h) \<longrightarrow>
          (\<exists>st' es. on_message now ctx (Rejected err) st = (st', es, HandlerRejected err)
              \<and> (\<forall>e\<in>set es. \<not> is_SendMessage e \<and> \<not> is_Reply e) \<and> (\<exists>e\<in>set es. is_GetTrack e)))"
proof (intro impI conjI)
  assume a: "\<not> isVotingGroup (msg_chat_id ctx) \<and> spotifyUrlToUri (msg_text ctx) = Some u"
  then show "\<exists>st' es. message_handler now ctx (Rejected err) st = (st', es, HandlerRejected err)
         \<and> (\<forall>e\<in>set es. \<not> is_SendMessage e \<and> \<not> is_Reply e) \<and> (\<exists>e\<in>set es. is_GetTrack e)"
    using message_handler_lookup_failed by blast
  assume "allow trackLimitConfig (hits st) (uid (msg_from ctx)) now = (True, h)"
  then have "on_message now ctx (Rejected err) st = message_handler now ctx (Rejected err) (st\<lparr>hits := h\<rparr>)"
    by (simp add: on_message_def)
  then show "\<exists>st' es. on_message now ctx (Rejected err) st = (st', es, HandlerRejected err)
              \<and> (\<forall>e\<in>set es. \<not> is_SendMessage e \<and> \<not> is_Reply e) \<and> (\<exists>e\<in>set es. is_GetTrack e)"
    using a message_handler_lookup_failed[of ctx u now err "st\<lparr>hits := h\<rparr>"] by simp
qed

lemma ready_hits: "hits ready_state = (\<lambda>u. [])"
  by (simp add: state_eval)

lemma first_call_allowed:
  "allow trackLimitConfig (\<lambda>u. []) userId now = (True, (\<lambda>u. [])(userId := [now]))"
  by (simp add: allow_def prune_def trackLimitConfig_def)

theorem lookup_failure_leaves_handler_witness:
  "(\<exists>st' es. message_handler 0 (link_message 42) (Rejected ''Not found'') ready_state
                = (st', es, HandlerRejected ''Not found'')
         \<and> (\<forall>e\<in>set es. \<not> is_SendMessage e \<and> \<not> is_Reply e) \<and> (\<exists>e\<in>set es. is_GetTrack e))
   \<and> (\<exists>st' es. on_message 0 (link_message 42) (Rejected ''Not found'') ready_state
                = (st', es, HandlerRejected ''Not found'')
         \<and> (\<forall>e\<in>set es. \<not> is_SendMessage e \<and> \<not> is_Reply e) \<and> (\<exists>e\<in>set es. is_GetTrack e))"
proof -
  have c: "\<not> isVotingGroup (msg_chat_id (link_message 42))
           \<and> spotifyUrlToUri (msg_text (link_message 42)) = Some ''spotify:track:abc''"
    using other_chat link_parses by (simp add: link_message_def)
  have a: "allow trackLimitConfig (hits ready_state) (uid (msg_from (link_message 42))) 0
             = (True, (\<lambda>u. [])(uid (msg_from (link_message 42)) := [0]))"
    using first_call_allowed by (simp add: ready_hits)
  show ?thesis
    using lookup_failure_leaves_handler[of "link_message 42" "''spotify:track:abc''" 0
        "''Not found''" ready_state "(\<lambda>u. [])(uid (msg_from (link_message 42)) := [0])"] c a
    by blast
qed

text \<open>
  Claim C7 as stated fails: for a link whose lookup is rejected with \<^verbatim>\<open>Not found\<close> the
  only effect is the lookup call, there is no reply, and the error leaves the handler.
\<close>

theorem lookup_failure_counterexample:
  "\<not> isVotingGroup (msg_chat_id (link_message 42))
   \<and> spotifyUrlToUri (msg_text (link_message 42)) = Some ''spotify:track:abc''
   \<and> on_message 0 (link_message 42) (Rejected ''Not found'') ready_state
     = (ready_state\<lparr>hits := (\<lambda>u. [])(7 := [0])\<rparr>,
        [GetTrack ''abc'' (Some ''access-1'')],
        HandlerRejected ''Not found'')"
proof -
  have "on_message 0 (link_message 42) (Rejected ''Not found'') ready_state
     = (ready_state\<lparr>hits := (\<lambda>u. [])(7 := [0])\<rparr>,
        [GetTrack ''abc'' (Some ''access-1'')],
        HandlerRejected ''Not found'')"
    by (simp add: on_message_def first_call_allowed ready_hits message_handler_def
        link_message_def ann_def other_chat track_regex_at_def track_tail_def word_group_def
        word_char_def resolveTrack_def uri_regex_at_def state_eval)
  then show ?thesis using other_chat link_parses by (simp add: link_message_def)
qed

text \<open>
  Claim C8, as amended. For a message from the voting group that reaches the message
  route, the handler returns at once, with no effect and the state unchanged. The limiter
  of the route runs before the handler: it updates the window of the sender, and a message
  it denies gets the wait reply as the only effect. In no case is there a lookup or a
  vote message.
\<close>

theorem voting_group_message:
  "isVotingGroup (msg_chat_id ctx) \<longrightarrow>
     message_handler now ctx lookup st = (st, [], Completed)
     \<and> (allow trackLimitConfig (hits st) (uid (msg_from ctx)) now = (True, h) \<longrightarrow>
          on_message now ctx lookup st = (st\<lparr>hits := h\<rparr>, [], Completed))
     \<and> (allow trackLimitConfig (hits st) (uid (msg_from ctx)) now = (False, h) \<longrightarrow>
          on_message now ctx lookup st
            = (st\<lparr>hits := h\<rparr>,
               [Reply (''Limit '' @ uuml @ ''berschritten, bitte warten!'')], Completed))"
  by (simp add: message_handler_def on_message_def trackLimitConfig_def)

theorem voting_group_message_witness:
  "message_handler 0 (link_message (-1002454626909)) (Fulfilled some_track) ready_state
     = (ready_state, [], Completed)
   \<and> on_message 0 (link_message (-1002454626909)) (Fulfilled some_track) ready_state
     = (ready_state\<lparr>hits := (\<lambda>u. [])(7 := [0])\<rparr>, [], Completed)
   \<and> on_message 3 (link_message (-1002454626909)) (Fulfilled some_track)
        (ready_state\<lparr>hits := (\<lambda>u. [])(7 := [0, 1, 2])\<rparr>)
     = (ready_state\<lparr>hits := (\<lambda>u. [])(7 := [0, 1, 2])\<rparr>,
        [Reply (''Limit '' @ uuml @ ''berschritten, bitte warten!'')], Completed)"
proof -
  let ?m = "link_message (-1002454626909)"
  let ?st = "ready_state\<lparr>hits := (\<lambda>u. [])(7 := [0, 1, 2])\<rparr>"
  have v: "isVotingGroup (msg_chat_id ?m)" using voting_chat by (simp add: link_message_def)
  have a: "allow trackLimitConfig (hits ready_state) (uid (msg_from ?m)) 0 = (True, (\<lambda>u. [])(7 := [0]))"
    using first_call_allowed[of 7 0] by (simp add: ready_hits link_message_def ann_def)
  have d: "allow trackLimitConfig (hits ?st) (uid (msg_from ?m)) 3 = (False, (\<lambda>u. [])(7 := [0, 1, 2]))"
    by (simp add: allow_def prune_def trackLimitConfig_def link_message_def ann_def)
  note A = voting_group_message[of ?m 0 "Fulfilled some_track" ready_state "(\<lambda>u. [])(7 := [0])", THEN mp, OF v]
  note B = voting_group_message[of ?m 3 "Fulfilled some_track" ?st "(\<lambda>u. [])(7 := [0, 1, 2])", THEN mp, OF v]
  have p1: "message_handler 0 ?m (Fulfilled some_track) ready_state = (ready_state, [], Completed)"
    using A[THEN conjunct1] .
  have p2: "on_message 0 ?m (Fulfilled some_track) ready_state
     = (ready_state\<lparr>hits := (\<lambda>u. [])(7 := [0])\<rparr>, [], Completed)"
    using A[THEN conjunct2, THEN conjunct1] a by simp
  have p3: "on_message 3 ?m (Fulfilled some_track) ?st
     = (?st, [Reply (''Limit '' @ uuml @ ''berschritten, bitte warten!'')], Completed)"
    using B[THEN conjunct2, THEN conjunct2] d by simp
  show ?thesis using p1 p2 p3 by blast
qed

text \<open>
  Claim C8 as stated fails: with the application-wide limiter at one update per second and
  user, of four messages that one user sends in the voting group two seconds apart, the
  fourth is answered with the wait reply.
\<close>

theorem voting_group_reply_counterexample:
  "isVotingGroup (msg_chat_id (link_message (-1002454626909)))
   \<and> run_messages one_per_second (\<lambda>u. []) ready_state
       [(0, link_message (-1002454626909), Fulfilled some_track),
        (2000, link_message (-1002454626909), Fulfilled some_track),
        (4000, link_message (-1002454626909), Fulfilled some_track),
        (6000, link_message (-1002454626909), Fulfilled some_track)]
     = [([], Completed), ([], Completed), ([], Completed),
        ([Reply (''Limit '' @ uuml @ ''berschritten, bitte warten!'')], Completed)]"
proof -
  have v: "isVotingGroup (msg_chat_id (link_message (-1002454626909)))"
    using voting_chat by (simp add: link_message_def)
  have u: "uid (msg_from (link_message (-1002454626909))) = 7"
    by (simp add: link_message_def ann_def)
  have "run_messages one_per_second (\<lambda>u. []) ready_state
       [(0, link_message (-1002454626909), Fulfilled some_track),
        (2000, link_message (-1002454626909), Fulfilled some_track),
        (4000, link_message (-1002454626909), Fulfilled some_track),
        (6000, link_message (-1002454626909), Fulfilled some_track)]
     = [([], Completed), ([], Completed), ([], Completed),
        ([Reply (''Limit '' @ uuml @ ''berschritten, bitte warten!'')], Completed)]"
    using v u
    by (simp add: update_message_def one_per_second_def on_message_def message_handler_def
        allow_def prune_def trackLimitConfig_def ready_hits)
  then show ?thesis using v by simp
qed

end
